theory Spec2Isabelle
  imports Main
begin

section \<open>The chat server of \<^verbatim>\<open>server.js\<close>\<close>

text \<open>
  The server keeps three process-wide JavaScript \<^verbatim>\<open>Map\<close>s (\<^verbatim>\<open>users\<close>,
  \<^verbatim>\<open>messages\<close>, \<^verbatim>\<open>chats\<close>) and, per connection, one closure variable
  \<^verbatim>\<open>currentUserId\<close>. Every socket event handler runs to completion, so a handler is
  a function from the registries (and the connection's \<^verbatim>\<open>currentUserId\<close>) to the new
  registries and the list of events it emits, in emission order.

  Identifiers, names and socket ids are JavaScript strings, modelled as \<open>string\<close>; a
  field of an event payload that may be missing is a \<open>string option\<close>, \<open>None\<close> standing
  for \<^verbatim>\<open>undefined\<close>/\<^verbatim>\<open>null\<close>. The values of \<^verbatim>\<open>generateId()\<close> and \<^verbatim>\<open>Date.now()\<close> are
  inputs of a handler, since the handler cannot choose them.
\<close>

subsection \<open>JavaScript values\<close>

text \<open>\<^verbatim>\<open>!v\<close> on a string or a missing field: only \<^verbatim>\<open>undefined\<close>, \<^verbatim>\<open>null\<close> and \<^verbatim>\<open>''\<close> are falsy.\<close>

definition truthy :: "string option \<Rightarrow> bool" where
  "truthy v = (case v of None \<Rightarrow> False | Some s \<Rightarrow> s \<noteq> [])"

text \<open>\<^verbatim>\<open>a || b\<close> on two possibly missing strings.\<close>

definition js_or :: "string option \<Rightarrow> string option \<Rightarrow> string option" where
  "js_or a b = (if truthy a then a else b)"

text \<open>\<^verbatim>\<open>v || 'Unknown'\<close> and \<^verbatim>\<open>v || ''\<close>.\<close>

definition or_unknown :: "string option \<Rightarrow> string" where
  "or_unknown v = (case v of None \<Rightarrow> ''Unknown'' | Some s \<Rightarrow> if s = [] then ''Unknown'' else s)"

definition or_empty :: "string option \<Rightarrow> string" where
  "or_empty v = (case v of None \<Rightarrow> [] | Some s \<Rightarrow> s)"

subsection \<open>A \<^verbatim>\<open>Map\<close>, in insertion order\<close>

text \<open>
  A \<^verbatim>\<open>Map\<close> iterates in insertion order, and \<^verbatim>\<open>set\<close> on a key that is present keeps
  the key's position: an association list, read from the front.
\<close>

fun map_get :: "'k \<Rightarrow> ('k \<times> 'v) list \<Rightarrow> 'v option" where
  "map_get k [] = None"
| "map_get k ((k', v) # m) = (if k' = k then Some v else map_get k m)"

definition map_has :: "'k \<Rightarrow> ('k \<times> 'v) list \<Rightarrow> bool" where
  "map_has k m = (map_get k m \<noteq> None)"

fun map_set :: "'k \<Rightarrow> 'v \<Rightarrow> ('k \<times> 'v) list \<Rightarrow> ('k \<times> 'v) list" where
  "map_set k v [] = [(k, v)]"
| "map_set k v ((k', v') # m) = (if k' = k then (k, v) # m else (k', v') # map_set k v m)"

text \<open>
  \<^verbatim>\<open>const o = m.get(k); if (o) o.f = x\<close>: the object stored under \<open>k\<close> is changed in
  place; nothing happens when the key is missing.
\<close>

fun map_modify :: "'k \<Rightarrow> ('v \<Rightarrow> 'v) \<Rightarrow> ('k \<times> 'v) list \<Rightarrow> ('k \<times> 'v) list" where
  "map_modify k f [] = []"
| "map_modify k f ((k', v) # m) = (if k' = k then (k, f v) # m else (k', v) # map_modify k f m)"

subsection \<open>Stored objects\<close>

record user =
  username :: "string option"
  socketId :: string
  online :: bool
  createdAt :: nat

datatype chat_type = Private | Group

record chat =
  participants :: "string list"
  ctype :: chat_type
  cname :: "string option"
  chat_createdAt :: nat
  createdBy :: "string option"

text \<open>The descriptor of an uploaded file, as \<^verbatim>\<open>/upload\<close> and \<^verbatim>\<open>upload-file\<close> build it.\<close>

record file_info =
  filename :: string
  originalName :: string
  mimetype :: string
  file_size :: nat
  url :: string

record message =
  msg_id :: string
  chatId :: string
  senderId :: string
  senderName :: string
  msg_text :: string
  msg_file :: "file_info option"
  timestamp :: nat
  read :: bool

record registry =
  users :: "(string \<times> user) list"
  messages :: "(string \<times> message list) list"
  chats :: "(string \<times> chat) list"

definition empty_registry :: registry where
  "empty_registry = \<lparr>users = [], messages = [], chats = []\<rparr>"

subsection \<open>Emitted events\<close>

text \<open>The message as a client sees it: \<^verbatim>\<open>sent\<close> says whether the receiver is the sender.\<close>

record msg_view =
  v_id :: string
  v_text :: string
  v_file :: "file_info option"
  v_senderId :: string
  v_senderName :: string
  v_timestamp :: nat
  v_sent :: bool

record chat_summary =
  s_chatId :: string
  s_name :: string
  s_type :: chat_type
  s_participants :: "string list"
  s_lastMessage :: "(string \<times> nat) option"
  s_online :: bool
  s_unread :: nat

datatype payload =
    LoginSuccess string "string option" "chat_summary list"
  | UserOnline string "string option"
  | UsersList "(string \<times> string option \<times> bool) list"
  | ChatStarted string string chat_type "string list" bool "message list"
  | NewChat string string chat_type "string list" bool
  | NewMessage string msg_view
  | FileUploaded string file_info
  | UploadError
  | UserTyping string string "string option" bool
  | MessagesLoaded string "msg_view list"
  | UserOffline string "string option"

text \<open>
  \<^verbatim>\<open>socket.emit\<close> and \<^verbatim>\<open>io.to(id).emit\<close> address one connection;
  \<^verbatim>\<open>socket.broadcast.emit\<close> addresses every connection but the handler's own.
\<close>

datatype target = ToSocket string | BroadcastExcept string

type_synonym emit = "target \<times> payload"

subsection \<open>Helpers of the server\<close>

text \<open>
  \<^verbatim>\<open>[user1, user2].sort().join('-')\<close>. The default \<^verbatim>\<open>sort\<close> compares strings by their
  code units and is stable: an element moves in front of another only when it is strictly
  smaller. A \<open>char\<close> stands for one code unit.
\<close>

fun str_lt :: "string \<Rightarrow> string \<Rightarrow> bool" where
  "str_lt [] [] = False"
| "str_lt [] (y # ys) = True"
| "str_lt (x # xs) [] = False"
| "str_lt (x # xs) (y # ys) =
     (if (of_char x :: nat) < of_char y then True
      else if (of_char y :: nat) < of_char x then False
      else str_lt xs ys)"

fun sort_insert :: "string \<Rightarrow> string list \<Rightarrow> string list" where
  "sort_insert x [] = [x]"
| "sort_insert x (y # ys) = (if str_lt y x then y # sort_insert x ys else x # y # ys)"

fun js_sort :: "string list \<Rightarrow> string list" where
  "js_sort [] = []"
| "js_sort (x # xs) = sort_insert x (js_sort xs)"

fun join :: "string \<Rightarrow> string list \<Rightarrow> string" where
  "join sep [] = []"
| "join sep [x] = x"
| "join sep (x # y # ys) = x @ sep @ join sep (y # ys)"

definition getChatId :: "string \<Rightarrow> string \<Rightarrow> string" where
  "getChatId user1 user2 = join ''-'' (js_sort [user1, user2])"

subsection \<open>\<^verbatim>\<open>login\<close>\<close>

text \<open>The loop over \<^verbatim>\<open>users.entries()\<close>: the id of the first user with that name.\<close>

fun find_user :: "string option \<Rightarrow> (string \<times> user) list \<Rightarrow> string option" where
  "find_user name [] = None"
| "find_user name ((uid, u) # us) = (if username u = name then Some uid else find_user name us)"

text \<open>\<^verbatim>\<open>chatMessages[chatMessages.length - 1]\<close>, which is \<^verbatim>\<open>undefined\<close> on an empty array.\<close>

definition last_message :: "message list \<Rightarrow> message option" where
  "last_message ms = (if ms = [] then None else Some (last ms))"

text \<open>The preview label of a message with a file and no text, as UTF-8: a paperclip and \<^verbatim>\<open> File\<close>.\<close>

definition file_label :: string where
  "file_label = [CHR 0xF0, CHR 0x9F, CHR 0x93, CHR 0x8E] @ '' File''"

definition messages_of :: "registry \<Rightarrow> string \<Rightarrow> message list" where
  "messages_of reg cid = (case map_get cid (messages reg) of None \<Rightarrow> [] | Some ms \<Rightarrow> ms)"

definition chat_summary_of :: "registry \<Rightarrow> string \<Rightarrow> string \<Rightarrow> chat \<Rightarrow> chat_summary" where
  "chat_summary_of reg userId cid c =
     (let chatMessages = messages_of reg cid;
          lastMessage = last_message chatMessages;
          otherParticipantId = List.find (\<lambda>p. p \<noteq> userId) (participants c);
          otherParticipant = (case otherParticipantId of None \<Rightarrow> None
                               | Some p \<Rightarrow> map_get p (users reg))
      in \<lparr>s_chatId = cid,
          s_name = or_unknown (js_or (cname c) (Option.bind otherParticipant username)),
          s_type = ctype c,
          s_participants = participants c,
          s_lastMessage = (case lastMessage of None \<Rightarrow> None
             | Some m \<Rightarrow> Some (if msg_text m \<noteq> [] then msg_text m
                               else if msg_file m \<noteq> None then file_label else [],
                               timestamp m)),
          s_online = (case otherParticipant of None \<Rightarrow> False | Some u \<Rightarrow> online u),
          s_unread = 0\<rparr>)"

fun user_chats :: "registry \<Rightarrow> string \<Rightarrow> (string \<times> chat) list \<Rightarrow> chat_summary list" where
  "user_chats reg userId [] = []"
| "user_chats reg userId ((cid, c) # cs) =
     (if userId \<in> set (participants c)
      then chat_summary_of reg userId cid c # user_chats reg userId cs
      else user_chats reg userId cs)"

text \<open>
  The handler never reads \<^verbatim>\<open>currentUserId\<close>; it assigns it. The result is the new
  registry, the new \<^verbatim>\<open>currentUserId\<close> and the events. The key that \<open>find_user\<close>
  returns is a key of \<^verbatim>\<open>users\<close>, so \<^verbatim>\<open>users.get(userId)\<close> is an object there.
\<close>

definition login ::
  "registry \<Rightarrow> string \<Rightarrow> string option \<Rightarrow> string \<Rightarrow> nat \<Rightarrow> registry \<times> string \<times> emit list" where
  "login reg sid name gid now =
     (let found = find_user name (users reg);
          userId = (if \<not> truthy found then gid else the found);
          reg' = (if \<not> truthy found
                  then reg\<lparr>users := map_set gid
                         \<lparr>username = name, socketId = sid, online = True, createdAt = now\<rparr>
                         (users reg)\<rparr>
                  else reg\<lparr>users := map_modify userId
                         (\<lambda>u. u\<lparr>socketId := sid, online := True\<rparr>) (users reg)\<rparr>);
          userChats = user_chats reg' userId (chats reg')
      in (reg', userId,
          [(ToSocket sid, LoginSuccess userId name userChats),
           (BroadcastExcept sid, UserOnline userId name)]))"

subsection \<open>\<^verbatim>\<open>get-users\<close>\<close>

text \<open>\<^verbatim>\<open>userId !== currentUserId\<close> holds for every key while \<^verbatim>\<open>currentUserId\<close> is \<^verbatim>\<open>null\<close>.\<close>

fun users_list ::
  "string option \<Rightarrow> (string \<times> user) list \<Rightarrow> (string \<times> string option \<times> bool) list" where
  "users_list cur [] = []"
| "users_list cur ((userId, u) # us) =
     (if Some userId \<noteq> cur then (userId, username u, online u) # users_list cur us
      else users_list cur us)"

definition get_users :: "registry \<Rightarrow> string \<Rightarrow> string option \<Rightarrow> registry \<times> emit list" where
  "get_users reg sid cur = (reg, [(ToSocket sid, UsersList (users_list cur (users reg)))])"

subsection \<open>\<^verbatim>\<open>start-chat\<close>\<close>

definition start_chat ::
  "registry \<Rightarrow> string \<Rightarrow> string option \<Rightarrow> string option \<Rightarrow> nat \<Rightarrow> registry \<times> emit list" where
  "start_chat reg sid cur target now =
     (if \<not> truthy cur \<or> \<not> truthy target then (reg, [])
      else
        let currentUserId = the cur; targetUserId = the target;
            cid = getChatId currentUserId targetUserId;
            reg' = (if \<not> map_has cid (chats reg)
                    then reg\<lparr>chats := map_set cid
                             \<lparr>participants = [currentUserId, targetUserId], ctype = Private,
                              cname = None, chat_createdAt = now, createdBy = None\<rparr>
                             (chats reg),
                           messages := map_set cid [] (messages reg)\<rparr>
                    else reg);
            targetUser = map_get targetUserId (users reg')
        in (reg',
            (ToSocket sid,
             ChatStarted cid (or_unknown (Option.bind targetUser username)) Private
               [currentUserId, targetUserId]
               (case targetUser of None \<Rightarrow> False | Some u \<Rightarrow> online u)
               (messages_of reg' cid))
            # (case targetUser of
                 None \<Rightarrow> []
               | Some u \<Rightarrow>
                   if online u
                   then [(ToSocket (socketId u),
                          NewChat cid
                            (or_unknown (Option.bind (map_get currentUserId (users reg')) username))
                            Private [currentUserId, targetUserId] True)]
                   else [])))"

subsection \<open>\<^verbatim>\<open>send-message\<close>\<close>

text \<open>\<^verbatim>\<open>participant && participant.online && participant.socketId\<close>: the socket to emit to.\<close>

definition deliverable :: "(string \<times> user) list \<Rightarrow> string \<Rightarrow> string option" where
  "deliverable us participantId =
     (case map_get participantId us of
        None \<Rightarrow> None
      | Some participant \<Rightarrow>
          if online participant \<and> socketId participant \<noteq> [] then Some (socketId participant)
          else None)"

definition view_of :: "message \<Rightarrow> bool \<Rightarrow> msg_view" where
  "view_of m s =
     \<lparr>v_id = msg_id m, v_text = msg_text m, v_file = msg_file m, v_senderId = senderId m,
      v_senderName = senderName m, v_timestamp = timestamp m, v_sent = s\<rparr>"

text \<open>\<^verbatim>\<open>chat.participants.forEach\<close> of the handler.\<close>

fun message_fanout ::
  "(string \<times> user) list \<Rightarrow> string \<Rightarrow> string \<Rightarrow> message \<Rightarrow> string list \<Rightarrow> emit list" where
  "message_fanout us currentUserId cid m [] = []"
| "message_fanout us currentUserId cid m (participantId # ps) =
     (case deliverable us participantId of
        Some s \<Rightarrow> (ToSocket s, NewMessage cid (view_of m (participantId = currentUserId)))
                  # message_fanout us currentUserId cid m ps
      | None \<Rightarrow> message_fanout us currentUserId cid m ps)"

definition send_message ::
  "registry \<Rightarrow> string option \<Rightarrow> string option \<Rightarrow> string option \<Rightarrow> file_info option \<Rightarrow>
   string \<Rightarrow> nat \<Rightarrow> registry \<times> emit list" where
  "send_message reg cur chatId_opt text_opt file_opt gid now =
     (if \<not> truthy cur \<or> \<not> truthy chatId_opt then (reg, [])
      else if \<not> truthy text_opt \<and> file_opt = None then (reg, [])
      else
        let currentUserId = the cur; cid = the chatId_opt in
        case map_get cid (chats reg) of
          None \<Rightarrow> (reg, [])
        | Some c \<Rightarrow>
            if currentUserId \<notin> set (participants c) then (reg, [])
            else
              let m = \<lparr>msg_id = gid, chatId = cid, senderId = currentUserId,
                       senderName =
                         or_unknown (Option.bind (map_get currentUserId (users reg)) username),
                       msg_text = or_empty text_opt, msg_file = file_opt,
                       timestamp = now, read = False\<rparr>;
                  chatMessages = messages_of reg cid @ [m]
              in (reg\<lparr>messages := map_set cid chatMessages (messages reg)\<rparr>,
                  message_fanout (users reg) currentUserId cid m (participants c)))"

subsection \<open>\<^verbatim>\<open>upload-file\<close>\<close>

text \<open>
  The handler writes the bytes to disk and answers the caller only. What the file system
  did is an input: \<open>Some\<close> descriptor when the write succeeded, \<open>None\<close> when the
  \<^verbatim>\<open>try\<close> block threw. No registry is read or written.
\<close>

definition upload_file ::
  "registry \<Rightarrow> string \<Rightarrow> string option \<Rightarrow> string option \<Rightarrow> string option \<Rightarrow>
   file_info option \<Rightarrow> registry \<times> emit list" where
  "upload_file reg sid cur chatId_opt fileData stored =
     (if \<not> truthy cur \<or> \<not> truthy chatId_opt \<or> \<not> truthy fileData then (reg, [])
      else case stored of
             Some fileInfo \<Rightarrow> (reg, [(ToSocket sid, FileUploaded (the chatId_opt) fileInfo)])
           | None \<Rightarrow> (reg, [(ToSocket sid, UploadError)]))"

subsection \<open>\<^verbatim>\<open>typing\<close>\<close>

fun typing_fanout ::
  "(string \<times> user) list \<Rightarrow> string \<Rightarrow> string \<Rightarrow> bool \<Rightarrow> string list \<Rightarrow> emit list" where
  "typing_fanout us currentUserId cid isTyping [] = []"
| "typing_fanout us currentUserId cid isTyping (participantId # ps) =
     (if participantId \<noteq> currentUserId
      then (case deliverable us participantId of
              Some s \<Rightarrow> (ToSocket s,
                          UserTyping cid currentUserId
                            (Option.bind (map_get currentUserId us) username) isTyping)
                        # typing_fanout us currentUserId cid isTyping ps
            | None \<Rightarrow> typing_fanout us currentUserId cid isTyping ps)
      else typing_fanout us currentUserId cid isTyping ps)"

definition typing ::
  "registry \<Rightarrow> string option \<Rightarrow> string option \<Rightarrow> bool \<Rightarrow> registry \<times> emit list" where
  "typing reg cur chatId_opt isTyping =
     (if \<not> truthy cur \<or> \<not> truthy chatId_opt then (reg, [])
      else case map_get (the chatId_opt) (chats reg) of
             None \<Rightarrow> (reg, [])
           | Some c \<Rightarrow>
               (reg, typing_fanout (users reg) (the cur) (the chatId_opt) isTyping
                       (participants c)))"

subsection \<open>\<^verbatim>\<open>create-group\<close>\<close>

fun group_fanout ::
  "(string \<times> user) list \<Rightarrow> string \<Rightarrow> string \<Rightarrow> string list \<Rightarrow> string list \<Rightarrow> emit list" where
  "group_fanout us cid name allParticipants [] = []"
| "group_fanout us cid name allParticipants (participantId # ps) =
     (case deliverable us participantId of
        Some s \<Rightarrow> (ToSocket s, NewChat cid name Group allParticipants False)
                  # group_fanout us cid name allParticipants ps
      | None \<Rightarrow> group_fanout us cid name allParticipants ps)"

definition create_group ::
  "registry \<Rightarrow> string option \<Rightarrow> string option \<Rightarrow> string list option \<Rightarrow> string \<Rightarrow> nat \<Rightarrow>
   registry \<times> emit list" where
  "create_group reg cur name participantIds gid now =
     (if \<not> truthy cur \<or> \<not> truthy name \<or> participantIds = None \<or> participantIds = Some []
      then (reg, [])
      else
        let currentUserId = the cur;
            allParticipants = currentUserId # the participantIds
        in (reg\<lparr>chats := map_set gid
                   \<lparr>participants = allParticipants, ctype = Group, cname = name,
                    chat_createdAt = now, createdBy = Some currentUserId\<rparr>
                   (chats reg),
                 messages := map_set gid [] (messages reg)\<rparr>,
            group_fanout (users reg) gid (the name) allParticipants allParticipants))"

subsection \<open>\<^verbatim>\<open>get-messages\<close>\<close>

definition get_messages ::
  "registry \<Rightarrow> string \<Rightarrow> string option \<Rightarrow> string option \<Rightarrow> registry \<times> emit list" where
  "get_messages reg sid cur chatId_opt =
     (if \<not> truthy cur \<or> \<not> truthy chatId_opt then (reg, [])
      else case map_get (the chatId_opt) (chats reg) of
             None \<Rightarrow> (reg, [])
           | Some c \<Rightarrow>
               if the cur \<notin> set (participants c) then (reg, [])
               else (reg,
                     [(ToSocket sid,
                       MessagesLoaded (the chatId_opt)
                         (map (\<lambda>msg. view_of msg (senderId msg = the cur))
                            (messages_of reg (the chatId_opt))))]))"

subsection \<open>\<^verbatim>\<open>disconnect\<close>\<close>

definition disconnect :: "registry \<Rightarrow> string \<Rightarrow> string option \<Rightarrow> registry \<times> emit list" where
  "disconnect reg sid cur =
     (if truthy cur
      then (case map_get (the cur) (users reg) of
              Some u \<Rightarrow>
                (reg\<lparr>users := map_modify (the cur) (\<lambda>u. u\<lparr>online := False\<rparr>) (users reg)\<rparr>,
                 [(BroadcastExcept sid, UserOffline (the cur) (username u))])
            | None \<Rightarrow> (reg, []))
      else (reg, []))"

subsection \<open>The server: all connections\<close>

text \<open>
  One event of one connection. \<open>gen_id\<close> is what \<^verbatim>\<open>generateId()\<close> returns if the handler
  calls it, \<open>now\<close> what \<^verbatim>\<open>Date.now()\<close> returns, \<open>stored\<close> what the file system did.
\<close>

datatype event =
    Login "string option"
  | GetUsers
  | StartChat "string option"
  | SendMessage "string option" "string option" "file_info option"
  | UploadFile "string option" "string option"
  | Typing "string option" bool
  | CreateGroup "string option" "string list option"
  | GetMessages "string option"
  | Disconnect

record env =
  gen_id :: string
  now :: nat
  stored :: "file_info option"

text \<open>\<open>currentUserId\<close> gives each connection's closure variable, \<^verbatim>\<open>null\<close> at connection.\<close>

record server =
  registries :: registry
  currentUserId :: "string \<Rightarrow> string option"

definition initial_server :: server where
  "initial_server = \<lparr>registries = empty_registry, currentUserId = (\<lambda>sid. None)\<rparr>"

text \<open>The handler of an event: the new registries, the new \<^verbatim>\<open>currentUserId\<close>, the events.\<close>

fun handle ::
  "registry \<Rightarrow> string \<Rightarrow> string option \<Rightarrow> event \<Rightarrow> env \<Rightarrow> registry \<times> string option \<times> emit list" where
  "handle reg sid cur (Login name) e =
     (case login reg sid name (gen_id e) (now e) of
        (reg', userId, out) \<Rightarrow> (reg', Some userId, out))"
| "handle reg sid cur GetUsers e =
     (case get_users reg sid cur of (reg', out) \<Rightarrow> (reg', cur, out))"
| "handle reg sid cur (StartChat target) e =
     (case start_chat reg sid cur target (now e) of (reg', out) \<Rightarrow> (reg', cur, out))"
| "handle reg sid cur (SendMessage c t f) e =
     (case send_message reg cur c t f (gen_id e) (now e) of (reg', out) \<Rightarrow> (reg', cur, out))"
| "handle reg sid cur (UploadFile c d) e =
     (case upload_file reg sid cur c d (stored e) of (reg', out) \<Rightarrow> (reg', cur, out))"
| "handle reg sid cur (Typing c b) e =
     (case typing reg cur c b of (reg', out) \<Rightarrow> (reg', cur, out))"
| "handle reg sid cur (CreateGroup n ps) e =
     (case create_group reg cur n ps (gen_id e) (now e) of (reg', out) \<Rightarrow> (reg', cur, out))"
| "handle reg sid cur (GetMessages c) e =
     (case get_messages reg sid cur c of (reg', out) \<Rightarrow> (reg', cur, out))"
| "handle reg sid cur Disconnect e =
     (case disconnect reg sid cur of (reg', out) \<Rightarrow> (reg', cur, out))"

definition step :: "server \<Rightarrow> string \<times> event \<times> env \<Rightarrow> server \<times> emit list" where
  "step sv i =
     (case i of (sid, ev, e) \<Rightarrow>
        (case handle (registries sv) sid (currentUserId sv sid) ev e of
           (reg', cur', out) \<Rightarrow>
             (\<lparr>registries = reg', currentUserId = (currentUserId sv)(sid := cur')\<rparr>, out)))"

fun run :: "server \<Rightarrow> (string \<times> event \<times> env) list \<Rightarrow> server \<times> emit list" where
  "run sv [] = (sv, [])"
| "run sv (i # is) =
     (case step sv i of (sv', out) \<Rightarrow>
        (case run sv' is of (sv'', out') \<Rightarrow> (sv'', out @ out')))"

subsection \<open>Sequences of calls, and what a reply names\<close>

text \<open>
  \<^verbatim>\<open>start-chat\<close> events handled one after the other, each given as the connection, the
  caller's \<^verbatim>\<open>currentUserId\<close>, the \<^verbatim>\<open>targetUserId\<close> and the time.
\<close>

fun start_chats :: "registry \<Rightarrow> (string \<times> string \<times> string \<times> nat) list \<Rightarrow> registry \<times> emit list" where
  "start_chats reg [] = (reg, [])"
| "start_chats reg ((sid, caller, target, t) # cs) =
     (case start_chat reg sid (Some caller) (Some target) t of (reg', out) \<Rightarrow>
        (case start_chats reg' cs of (reg'', out') \<Rightarrow> (reg'', out @ out')))"

text \<open>The chat ids of the \<^verbatim>\<open>chat-started\<close> replies among the emitted events.\<close>

fun started_ids :: "emit list \<Rightarrow> string list" where
  "started_ids [] = []"
| "started_ids ((tg, ChatStarted cid n ty ps on ms) # es) = cid # started_ids es"
| "started_ids (e # es) = started_ids es"

subsection \<open>Words for the statements\<close>

text \<open>A participant id is online when \<^verbatim>\<open>users\<close> has it and its \<^verbatim>\<open>online\<close> flag is set.\<close>

definition is_online :: "(string \<times> user) list \<Rightarrow> string \<Rightarrow> bool" where
  "is_online us p = (case map_get p us of None \<Rightarrow> False | Some u \<Rightarrow> online u)"

text \<open>The connection handle stored for a user id.\<close>

definition handle_of :: "(string \<times> user) list \<Rightarrow> string \<Rightarrow> string" where
  "handle_of us p = (case map_get p us of None \<Rightarrow> [] | Some u \<Rightarrow> socketId u)"

text \<open>Every stored connection handle is a non-empty string, as every \<^verbatim>\<open>socket.id\<close> is.\<close>

definition handles_ok :: "(string \<times> user) list \<Rightarrow> bool" where
  "handles_ok us = list_all (\<lambda>(k, u). socketId u \<noteq> []) us"

text \<open>
  The keys of \<^verbatim>\<open>users\<close> are non-empty strings, as every result of \<^verbatim>\<open>generateId()\<close> is,
  and a \<^verbatim>\<open>Map\<close> holds a key once.
\<close>

definition keys_ok :: "(string \<times> user) list \<Rightarrow> bool" where
  "keys_ok us = (list_all (\<lambda>(k, u). k \<noteq> []) us \<and> distinct (map fst us))"

text \<open>No two users have the same name.\<close>

definition names_ok :: "(string \<times> user) list \<Rightarrow> bool" where
  "names_ok us = distinct (map (\<lambda>(k, u). username u) us)"

text \<open>Every chat id with a message log is a chat id of \<^verbatim>\<open>chats\<close>.\<close>

definition log_inv :: "registry \<Rightarrow> bool" where
  "log_inv reg = list_all (\<lambda>(k, ms). map_has k (chats reg)) (messages reg)"

text \<open>
  The result of \<^verbatim>\<open>generateId()\<close> is new where the handler uses it as a key: not a user id
  at \<^verbatim>\<open>login\<close>, not a chat id at \<^verbatim>\<open>create-group\<close>; and it is never the empty string.
\<close>

definition fresh_input :: "registry \<Rightarrow> string \<times> event \<times> env \<Rightarrow> bool" where
  "fresh_input reg i =
     (case i of (sid, ev, e) \<Rightarrow>
        (case ev of
           Login name \<Rightarrow> gen_id e \<noteq> [] \<and> \<not> map_has (gen_id e) (users reg)
         | CreateGroup n ps \<Rightarrow> gen_id e \<noteq> [] \<and> \<not> map_has (gen_id e) (chats reg)
         | _ \<Rightarrow> True))"

fun fresh_run :: "server \<Rightarrow> (string \<times> event \<times> env) list \<Rightarrow> bool" where
  "fresh_run sv [] = True"
| "fresh_run sv (i # is) = (fresh_input (registries sv) i \<and> fresh_run (fst (step sv i)) is)"

subsection \<open>Example inputs\<close>

definition at_time :: "string \<Rightarrow> nat \<Rightarrow> env" where
  "at_time g t = \<lparr>gen_id = g, now = t, stored = None\<rparr>"

text \<open>
  Alice, Bob and Carol log in on three connections and get the ids \<open>u1\<close>, \<open>u2\<close>, \<open>u3\<close>;
  Alice starts the direct chat \<open>u1-u2\<close> with Bob.
\<close>

definition three_users :: "(string \<times> event \<times> env) list" where
  "three_users =
     [(''s1'', Login (Some ''alice''), at_time ''u1'' 1),
      (''s2'', Login (Some ''bob''), at_time ''u2'' 2),
      (''s3'', Login (Some ''carol''), at_time ''u3'' 3),
      (''s1'', StartChat (Some ''u2''), at_time ''x'' 4)]"

definition a_file :: file_info where
  "a_file = \<lparr>filename = ''1-2-a.txt'', originalName = ''a.txt'', mimetype = ''text/plain'',
              file_size = 3, url = ''/uploads/1-2-a.txt''\<rparr>"

text \<open>
  Dave logs in as well; Alice creates the group \<open>g1\<close> with Bob and Carol; Carol
  disconnects.
\<close>

definition group_scenario :: "(string \<times> event \<times> env) list" where
  "group_scenario =
     three_users @
     [(''s4'', Login (Some ''dave''), at_time ''u4'' 5),
      (''s1'', CreateGroup (Some ''Team'') (Some [''u2'', ''u3'']), at_time ''g1'' 6),
      (''s3'', Disconnect, at_time ''x'' 7)]"

text \<open>Alice and Bob then write to their chat in turn.\<close>

definition chat_scenario :: "(string \<times> event \<times> env) list" where
  "chat_scenario =
     three_users @
     [(''s1'', SendMessage (Some ''u1-u2'') (Some ''hi'') None, at_time ''m1'' 5),
      (''s2'', SendMessage (Some ''u1-u2'') (Some ''hello'') None, at_time ''m2'' 6),
      (''s1'', SendMessage (Some ''u1-u2'') None (Some a_file), at_time ''m3'' 7)]"

section \<open>Properties\<close>

subsection \<open>Maps, strings and chat ids\<close>

lemma map_get_map_set: "map_get k (map_set k' v m) = (if k = k' then Some v else map_get k m)"
  by (induction m) auto

lemma map_get_map_modify:
  "map_get k (map_modify k' f m) = (if k = k' then map_option f (map_get k m) else map_get k m)"
  by (induction m) auto

lemma map_set_absent: "map_get k m = None \<Longrightarrow> map_set k v m = m @ [(k, v)]"
  by (induction m) (auto split: if_splits)

lemma keys_map_modify: "map fst (map_modify k f m) = map fst m"
  by (induction m) auto

lemma map_get_None_iff: "map_get k m = None \<longleftrightarrow> k \<notin> fst ` set m"
  by (induction m) (auto split: if_splits)

lemma str_lt_irrefl: "\<not> str_lt a a"
  by (induction a) auto

lemma str_lt_asym: "str_lt a b \<Longrightarrow> \<not> str_lt b a"
  by (induction a b rule: str_lt.induct) (auto split: if_splits)

lemma str_lt_total: "\<not> str_lt a b \<Longrightarrow> \<not> str_lt b a \<Longrightarrow> a = b"
proof (induction a b rule: str_lt.induct)
  case (4 x xs y ys)
  then have "(of_char x :: nat) = of_char y"
    by (auto split: if_splits)
  then have "x = y" by simp
  with 4 show ?case by (auto split: if_splits)
qed auto

lemma getChatId_unfold:
  "getChatId a b = (if str_lt b a then b @ ''-'' @ a else a @ ''-'' @ b)"
  by (simp add: getChatId_def)

lemma getChatId_commute: "getChatId a b = getChatId b a"
  using str_lt_asym [of a b] str_lt_total [of a b]
  by (auto simp: getChatId_unfold)

lemma getChatId_self: "getChatId a a = a @ ''-'' @ a"
  by (simp add: getChatId_unfold)

lemma truthy_Some [simp]: "truthy (Some s) = (s \<noteq> [])"
  by (simp add: truthy_def)

lemma truthy_None [simp]: "\<not> truthy None"
  by (simp add: truthy_def)

subsection \<open>Direct chats\<close>

lemma start_chat_existing:
  "x \<noteq> [] \<Longrightarrow> y \<noteq> [] \<Longrightarrow> map_has (getChatId x y) (chats reg) \<Longrightarrow>
   fst (start_chat reg sid (Some x) (Some y) t) = reg"
  by (simp add: start_chat_def Let_def)

lemma start_chat_chats:
  "x \<noteq> [] \<Longrightarrow> y \<noteq> [] \<Longrightarrow>
   chats (fst (start_chat reg sid (Some x) (Some y) t)) =
     (if map_has (getChatId x y) (chats reg) then chats reg
      else chats reg @ [(getChatId x y,
             \<lparr>participants = [x, y], ctype = Private, cname = None,
              chat_createdAt = t, createdBy = None\<rparr>)])"
  by (simp add: start_chat_def Let_def map_has_def map_set_absent)

lemma start_chat_has:
  "x \<noteq> [] \<Longrightarrow> y \<noteq> [] \<Longrightarrow>
   map_has (getChatId x y) (chats (fst (start_chat reg sid (Some x) (Some y) t)))"
  by (simp add: start_chat_def Let_def map_has_def map_get_map_set)

lemma start_chat_started_ids:
  "x \<noteq> [] \<Longrightarrow> y \<noteq> [] \<Longrightarrow>
   started_ids (snd (start_chat reg sid (Some x) (Some y) t)) = [getChatId x y]"
  by (simp add: start_chat_def Let_def split: option.splits)

lemma started_ids_append: "started_ids (xs @ ys) = started_ids xs @ started_ids ys"
  by (induction xs rule: started_ids.induct) auto

lemma start_chats_Cons:
  "fst (start_chats reg ((s, x, y, t) # cs)) =
     fst (start_chats (fst (start_chat reg s (Some x) (Some y) t)) cs)"
  "snd (start_chats reg ((s, x, y, t) # cs)) =
     snd (start_chat reg s (Some x) (Some y) t) @
     snd (start_chats (fst (start_chat reg s (Some x) (Some y) t)) cs)"
  by (simp_all split: prod.splits)

lemma start_chats_existing:
  assumes "a \<noteq> []" "b \<noteq> []"
    and "\<forall>(s, x, y, t) \<in> set calls. (x, y) = (a, b) \<or> (x, y) = (b, a)"
    and "map_has (getChatId a b) (chats reg)"
  shows "fst (start_chats reg calls) = reg"
  using assms(3,4)
proof (induction calls arbitrary: reg)
  case Nil
  then show ?case by simp
next
  case (Cons c cs)
  obtain s x y t where c: "c = (s, x, y, t)" by (cases c) auto
  from Cons.prems(1) c have xy: "(x, y) = (a, b) \<or> (x, y) = (b, a)" by simp
  then have cid: "getChatId x y = getChatId a b"
    using getChatId_commute [of a b] by auto
  from xy assms(1,2) have ne: "x \<noteq> []" "y \<noteq> []" by auto
  have same: "fst (start_chat reg s (Some x) (Some y) t) = reg"
    using start_chat_existing [OF ne] Cons.prems(2) cid by simp
  have "fst (start_chats reg cs) = reg"
    using Cons.IH Cons.prems by simp
  with same show ?case
    by (simp only: c start_chats_Cons)
qed

lemma start_chats_ids:
  assumes "a \<noteq> []" "b \<noteq> []"
    and "\<forall>(s, x, y, t) \<in> set calls. (x, y) = (a, b) \<or> (x, y) = (b, a)"
  shows "started_ids (snd (start_chats reg calls)) = replicate (length calls) (getChatId a b)"
  using assms(3)
proof (induction calls arbitrary: reg)
  case Nil
  then show ?case by simp
next
  case (Cons c cs)
  obtain s x y t where c: "c = (s, x, y, t)" by (cases c) auto
  from Cons.prems(1) c have xy: "(x, y) = (a, b) \<or> (x, y) = (b, a)" by simp
  then have cid: "getChatId x y = getChatId a b"
    using getChatId_commute [of a b] by auto
  from xy assms(1,2) have ne: "x \<noteq> []" "y \<noteq> []" by auto
  have hd: "started_ids (snd (start_chat reg s (Some x) (Some y) t)) = [getChatId a b]"
    using start_chat_started_ids [OF ne] cid by simp
  have tl: "started_ids (snd (start_chats (fst (start_chat reg s (Some x) (Some y) t)) cs))
            = replicate (length cs) (getChatId a b)"
    using Cons.IH Cons.prems by simp
  from hd tl show ?case
    by (simp add: c start_chats_Cons started_ids_append del: start_chats.simps)
qed

text \<open>
  Claim C3. For users \<open>a\<close> and \<open>b\<close>, the chat id does not depend on the order of the
  pair, and any sequence of \<^verbatim>\<open>start-chat\<close> calls between them, in either direction,
  gets the same chat id in every reply; once the chat exists a call leaves all three
  registries as they are, so the first call creates at most one chat and the later calls
  create nothing and reset no message log.
\<close>

theorem direct_chat_idempotent:
  assumes "a \<noteq> []" and "b \<noteq> []"
    and "\<forall>(s, x, y, t) \<in> set calls. (x, y) = (a, b) \<or> (x, y) = (b, a)"
  shows "getChatId a b = getChatId b a \<and>
         started_ids (snd (start_chats reg calls)) = replicate (length calls) (getChatId a b) \<and>
         (map_has (getChatId a b) (chats reg) \<longrightarrow> fst (start_chats reg calls) = reg) \<and>
         (\<forall>s x y t cs. calls = (s, x, y, t) # cs \<longrightarrow>
            fst (start_chats reg calls) = fst (start_chat reg s (Some x) (Some y) t) \<and>
            chats (fst (start_chats reg calls)) =
              (if map_has (getChatId a b) (chats reg) then chats reg
               else chats reg @ [(getChatId a b,
                      \<lparr>participants = [x, y], ctype = Private, cname = None,
                       chat_createdAt = t, createdBy = None\<rparr>)]))"
proof (intro conjI allI impI)
  show "getChatId a b = getChatId b a" by (rule getChatId_commute)
  show "started_ids (snd (start_chats reg calls)) = replicate (length calls) (getChatId a b)"
    by (rule start_chats_ids [OF assms])
  show "fst (start_chats reg calls) = reg" if "map_has (getChatId a b) (chats reg)"
    by (rule start_chats_existing [OF assms that])
next
  fix s x y t cs
  assume calls: "calls = (s, x, y, t) # cs"
  with assms(3) have xy: "(x, y) = (a, b) \<or> (x, y) = (b, a)" by simp
  then have cid: "getChatId x y = getChatId a b"
    using getChatId_commute [of a b] by auto
  from xy assms(1,2) have ne: "x \<noteq> []" "y \<noteq> []" by auto
  let ?r1 = "fst (start_chat reg s (Some x) (Some y) t)"
  have has: "map_has (getChatId a b) (chats ?r1)"
    using start_chat_has [OF ne] cid by simp
  have rest: "\<forall>(s, x, y, t) \<in> set cs. (x, y) = (a, b) \<or> (x, y) = (b, a)"
    using assms(3) calls by simp
  have "fst (start_chats ?r1 cs) = ?r1"
    by (rule start_chats_existing [OF assms(1,2) rest has])
  then show r: "fst (start_chats reg calls) = ?r1"
    by (simp only: calls start_chats_Cons)
  show "chats (fst (start_chats reg calls)) =
              (if map_has (getChatId a b) (chats reg) then chats reg
               else chats reg @ [(getChatId a b,
                      \<lparr>participants = [x, y], ctype = Private, cname = None,
                       chat_createdAt = t, createdBy = None\<rparr>)])"
    using start_chat_chats [OF ne, of reg s t] cid r by simp
qed

theorem direct_chat_idempotent_witness:
  "''u1'' \<noteq> [] \<and> ''u2'' \<noteq> [] \<and>
   getChatId ''u1'' ''u2'' = ''u1-u2'' \<and> getChatId ''u2'' ''u1'' = ''u1-u2'' \<and>
   started_ids (snd (start_chats empty_registry
       [(''s1'', ''u1'', ''u2'', 1), (''s2'', ''u2'', ''u1'', 2), (''s1'', ''u1'', ''u2'', 3)]))
     = [''u1-u2'', ''u1-u2'', ''u1-u2''] \<and>
   chats (fst (start_chats empty_registry
       [(''s1'', ''u1'', ''u2'', 1), (''s2'', ''u2'', ''u1'', 2), (''s1'', ''u1'', ''u2'', 3)]))
     = [(''u1-u2'', \<lparr>participants = [''u1'', ''u2''], ctype = Private, cname = None,
                       chat_createdAt = 1, createdBy = None\<rparr>)]"
  using direct_chat_idempotent [where a = "''u1''" and b = "''u2''" and reg = empty_registry
      and calls = "[(''s1'', ''u1'', ''u2'', 1), (''s2'', ''u2'', ''u1'', 2),
                    (''s1'', ''u1'', ''u2'', 3)]"]
  by (simp add: getChatId_unfold empty_registry_def map_has_def start_chat_def Let_def
      messages_of_def)

text \<open>
  Claim C10. A caller whose \<^verbatim>\<open>targetUserId\<close> is the caller's own id is answered: the reply
  names the chat \<open>uid-uid\<close> with the participants \<open>[uid, uid]\<close>, and when no chat has that
  id yet, one is created with the caller's id twice in its participants and an empty
  message log.
\<close>

theorem start_chat_with_self:
  assumes "uid \<noteq> []"
  shows "getChatId uid uid = uid @ ''-'' @ uid \<and>
     (case start_chat reg sid (Some uid) (Some uid) t of (reg', out) \<Rightarrow>
        out \<noteq> [] \<and>
        hd out = (ToSocket sid,
                  ChatStarted (uid @ ''-'' @ uid)
                    (or_unknown (Option.bind (map_get uid (users reg)) username)) Private
                    [uid, uid]
                    (case map_get uid (users reg) of None \<Rightarrow> False | Some u \<Rightarrow> online u)
                    (messages_of reg' (uid @ ''-'' @ uid))) \<and>
        (\<not> map_has (uid @ ''-'' @ uid) (chats reg) \<longrightarrow>
           chats reg' = chats reg @ [(uid @ ''-'' @ uid,
              \<lparr>participants = [uid, uid], ctype = Private, cname = None,
               chat_createdAt = t, createdBy = None\<rparr>)] \<and>
           messages_of reg' (uid @ ''-'' @ uid) = []))"
  using assms
  by (simp add: getChatId_self start_chat_def Let_def map_has_def map_set_absent
      messages_of_def map_get_map_set split: prod.splits)

theorem start_chat_with_self_witness:
  "''u1'' \<noteq> [] \<and> getChatId ''u1'' ''u1'' = ''u1-u1'' \<and>
   start_chat empty_registry ''s1'' (Some ''u1'') (Some ''u1'') 7 =
     (\<lparr>users = [], messages = [(''u1-u1'', [])],
       chats = [(''u1-u1'', \<lparr>participants = [''u1'', ''u1''], ctype = Private, cname = None,
                               chat_createdAt = 7, createdBy = None\<rparr>)]\<rparr>,
      [(ToSocket ''s1'', ChatStarted ''u1-u1'' ''Unknown'' Private [''u1'', ''u1''] False [])])"
  using start_chat_with_self [where uid = "''u1''" and reg = empty_registry
      and sid = "''s1''" and t = 7]
  by (simp add: getChatId_unfold start_chat_def Let_def map_has_def empty_registry_def
      messages_of_def or_unknown_def)

subsection \<open>Membership and presence\<close>

text \<open>
  \<^verbatim>\<open>send-message\<close> and \<^verbatim>\<open>get-messages\<close> test \<^verbatim>\<open>chat.participants.includes(currentUserId)\<close>
  and do nothing for a caller who is not a participant; \<^verbatim>\<open>typing\<close> never changes a
  registry.
\<close>

lemma non_participant_send_get:
  "map_get cid (chats reg) = Some c \<Longrightarrow> uid \<notin> set (participants c) \<Longrightarrow>
   send_message reg (Some uid) (Some cid) text_opt file_opt gid t = (reg, []) \<and>
   get_messages reg sid (Some uid) (Some cid) = (reg, [])"
  by (simp add: send_message_def get_messages_def Let_def)

lemma typing_registry: "fst (typing reg cur cid b) = reg"
  by (simp add: typing_def split: option.splits)

text \<open>
  Claim C1. A user who is not a participant of a chat and invokes \<^verbatim>\<open>send-message\<close>,
  \<^verbatim>\<open>get-messages\<close> or \<^verbatim>\<open>typing\<close> on it causes no event to be delivered. The \<^verbatim>\<open>typing\<close>
  handler has no membership test: after Alice, Bob and Carol have logged in and Alice has
  started the chat \<open>u1-u2\<close> with Bob, Carol's \<^verbatim>\<open>typing\<close> on \<open>u1-u2\<close> is delivered to
  Alice's and to Bob's connection.
\<close>

theorem typing_by_non_participant:
  "registries (fst (run initial_server three_users)) =
     \<lparr>users = [(''u1'', \<lparr>username = Some ''alice'', socketId = ''s1'', online = True, createdAt = 1\<rparr>),
               (''u2'', \<lparr>username = Some ''bob'', socketId = ''s2'', online = True, createdAt = 2\<rparr>),
               (''u3'', \<lparr>username = Some ''carol'', socketId = ''s3'', online = True, createdAt = 3\<rparr>)],
      messages = [(''u1-u2'', [])],
      chats = [(''u1-u2'', \<lparr>participants = [''u1'', ''u2''], ctype = Private, cname = None,
                              chat_createdAt = 4, createdBy = None\<rparr>)]\<rparr> \<and>
   currentUserId (fst (run initial_server three_users)) ''s3'' = Some ''u3'' \<and>
   snd (step (fst (run initial_server three_users))
          (''s3'', Typing (Some ''u1-u2'') True, at_time ''x'' 5)) =
     [(ToSocket ''s1'', UserTyping ''u1-u2'' ''u3'' (Some ''carol'') True),
      (ToSocket ''s2'', UserTyping ''u1-u2'' ''u3'' (Some ''carol'') True)]"
  by code_simp

text \<open>
  Claim C8. \<^verbatim>\<open>get-users\<close> replies with the users that are online, the caller excluded. The
  loop has no test of \<^verbatim>\<open>user.online\<close>: after Bob has disconnected, Alice's list holds Bob,
  with \<^verbatim>\<open>online: false\<close>.
\<close>

theorem get_users_lists_offline_user:
  "registries (fst (run initial_server
      [(''s1'', Login (Some ''alice''), at_time ''u1'' 1),
       (''s2'', Login (Some ''bob''), at_time ''u2'' 2),
       (''s2'', Disconnect, at_time ''x'' 3)])) =
     \<lparr>users = [(''u1'', \<lparr>username = Some ''alice'', socketId = ''s1'', online = True, createdAt = 1\<rparr>),
               (''u2'', \<lparr>username = Some ''bob'', socketId = ''s2'', online = False, createdAt = 2\<rparr>)],
      messages = [], chats = []\<rparr> \<and>
   snd (run initial_server
      [(''s1'', Login (Some ''alice''), at_time ''u1'' 1),
       (''s2'', Login (Some ''bob''), at_time ''u2'' 2),
       (''s2'', Disconnect, at_time ''x'' 3),
       (''s1'', GetUsers, at_time ''x'' 4)]) =
     [(ToSocket ''s1'', LoginSuccess ''u1'' (Some ''alice'') []),
      (BroadcastExcept ''s1'', UserOnline ''u1'' (Some ''alice'')),
      (ToSocket ''s2'', LoginSuccess ''u2'' (Some ''bob'') []),
      (BroadcastExcept ''s2'', UserOnline ''u2'' (Some ''bob'')),
      (BroadcastExcept ''s2'', UserOffline ''u2'' (Some ''bob'')),
      (ToSocket ''s1'', UsersList [(''u2'', Some ''bob'', False)])]"
  by code_simp

subsection \<open>Fan-out\<close>

lemma map_get_in_set: "map_get k m = Some v \<Longrightarrow> (k, v) \<in> set m"
  by (induction m) (auto split: if_splits)

lemma deliverable_online:
  "handles_ok us \<Longrightarrow>
   deliverable us p = (if is_online us p then Some (handle_of us p) else None)"
  by (auto simp: handles_ok_def deliverable_def is_online_def handle_of_def list_all_iff
      split: option.splits dest: map_get_in_set)

lemma group_fanout_eq:
  "handles_ok us \<Longrightarrow>
   group_fanout us cid n allp ps =
     map (\<lambda>p. (ToSocket (handle_of us p), NewChat cid n Group allp False))
       (filter (is_online us) ps)"
  by (induction ps) (simp_all add: deliverable_online)

subsection \<open>Message creation\<close>

text \<open>
  Claim C5, as stated: a message never carries both a text and a file. Alice sends a
  message with the text \<open>hi\<close> and a file; the stored message has both.
\<close>

theorem send_message_both_counterexample:
  "messages (registries (fst (step (fst (run initial_server three_users))
      (''s1'', SendMessage (Some ''u1-u2'') (Some ''hi'') (Some a_file), at_time ''m1'' 5)))) =
     [(''u1-u2'',
       [\<lparr>msg_id = ''m1'', chatId = ''u1-u2'', senderId = ''u1'', senderName = ''alice'',
         msg_text = ''hi'', msg_file = Some a_file, timestamp = 5, read = False\<rparr>])]"
  by code_simp

text \<open>
  Claim C5, amended. A \<^verbatim>\<open>send-message\<close> with neither a text nor a file changes no
  registry and emits nothing; whatever the event, every message log is afterwards as it
  was or longer by one message, which carries the text and the file of the event, at
  least one of them present.
\<close>

theorem send_message_needs_text_or_file:
  "(\<not> truthy text_opt \<and> file_opt = None \<longrightarrow>
      send_message reg cur cid text_opt file_opt gid t = (reg, [])) \<and>
   (\<forall>c. messages_of (fst (send_message reg cur cid text_opt file_opt gid t)) c = messages_of reg c \<or>
        (\<exists>m. messages_of (fst (send_message reg cur cid text_opt file_opt gid t)) c
               = messages_of reg c @ [m] \<and>
             msg_text m = or_empty text_opt \<and> msg_file m = file_opt \<and>
             (msg_text m \<noteq> [] \<or> msg_file m \<noteq> None)))"
proof (intro conjI allI impI)
  show "send_message reg cur cid text_opt file_opt gid t = (reg, [])"
    if "\<not> truthy text_opt \<and> file_opt = None"
    using that by (simp add: send_message_def)
next
  fix c
  show "messages_of (fst (send_message reg cur cid text_opt file_opt gid t)) c = messages_of reg c \<or>
        (\<exists>m. messages_of (fst (send_message reg cur cid text_opt file_opt gid t)) c
               = messages_of reg c @ [m] \<and>
             msg_text m = or_empty text_opt \<and> msg_file m = file_opt \<and>
             (msg_text m \<noteq> [] \<or> msg_file m \<noteq> None))"
    by (auto simp: send_message_def Let_def messages_of_def map_get_map_set truthy_def
        or_empty_def split: option.splits)
qed

theorem send_message_needs_text_or_file_witness:
  "\<not> truthy None \<and>
   send_message (registries (fst (run initial_server three_users))) (Some ''u1'')
     (Some ''u1-u2'') None None ''m1'' 5 = (registries (fst (run initial_server three_users)), [])"
  using send_message_needs_text_or_file [where text_opt = None and file_opt = None
      and reg = "registries (fst (run initial_server three_users))" and cur = "Some ''u1''"
      and cid = "Some ''u1-u2''" and gid = "''m1''" and t = 5]
  by simp

subsection \<open>Group chats\<close>

text \<open>
  Claim C7, as stated: the creator is not duplicated when listed among the members, and
  every online member is notified exactly once. Alice creates a group with the members
  \<open>[u1, u2]\<close>: the stored participants are \<open>[u1, u1, u2]\<close>, and Alice's connection gets
  the notification twice.
\<close>

theorem create_group_duplicates_counterexample:
  "create_group (registries (fst (run initial_server three_users))) (Some ''u1'')
      (Some ''Team'') (Some [''u1'', ''u2'']) ''g1'' 5 =
     (\<lparr>users = users (registries (fst (run initial_server three_users))),
       messages = [(''u1-u2'', []), (''g1'', [])],
       chats = [(''u1-u2'', \<lparr>participants = [''u1'', ''u2''], ctype = Private, cname = None,
                               chat_createdAt = 4, createdBy = None\<rparr>),
                (''g1'', \<lparr>participants = [''u1'', ''u1'', ''u2''], ctype = Group,
                           cname = Some ''Team'', chat_createdAt = 5,
                           createdBy = Some ''u1''\<rparr>)]\<rparr>,
      [(ToSocket ''s1'', NewChat ''g1'' ''Team'' Group [''u1'', ''u1'', ''u2''] False),
       (ToSocket ''s1'', NewChat ''g1'' ''Team'' Group [''u1'', ''u1'', ''u2''] False),
       (ToSocket ''s2'', NewChat ''g1'' ''Team'' Group [''u1'', ''u1'', ''u2''] False)])"
  by code_simp

text \<open>
  Claim C7, amended. Without a caller id, a name or a member, \<^verbatim>\<open>create-group\<close> changes no
  registry and emits nothing. Otherwise the chat stored under the generated id has the
  type group, the given name and the participant list made of the creator followed by
  the members as given (so its set is the creator and the members, and an id listed
  twice stays twice); the other chats and the users are untouched; and one notification
  is emitted for each entry of that list whose user is online, to that user's connection.
\<close>

theorem create_group_result:
  assumes "handles_ok (users reg)"
  shows "(\<not> truthy cur \<or> \<not> truthy name \<or> pids = None \<or> pids = Some [] \<longrightarrow>
            create_group reg cur name pids gid t = (reg, [])) \<and>
         (cur = Some uid \<and> uid \<noteq> [] \<and> name = Some n \<and> n \<noteq> [] \<and> pids = Some ps \<and> ps \<noteq> [] \<longrightarrow>
            (case create_group reg cur name pids gid t of (reg', out) \<Rightarrow>
               map_get gid (chats reg') =
                 Some \<lparr>participants = uid # ps, ctype = Group, cname = Some n,
                       chat_createdAt = t, createdBy = Some uid\<rparr> \<and>
               set (uid # ps) = {uid} \<union> set ps \<and>
               (\<forall>k. k \<noteq> gid \<longrightarrow> map_get k (chats reg') = map_get k (chats reg)) \<and>
               users reg' = users reg \<and>
               messages reg' = map_set gid [] (messages reg) \<and>
               out = map (\<lambda>p. (ToSocket (handle_of (users reg) p),
                                 NewChat gid n Group (uid # ps) False))
                       (filter (is_online (users reg)) (uid # ps))))"
  using assms
  by (auto simp: create_group_def Let_def map_get_map_set group_fanout_eq
      simp del: group_fanout.simps)

theorem create_group_result_witness:
  "handles_ok (users (registries (fst (run initial_server three_users)))) \<and>
   create_group (registries (fst (run initial_server three_users))) (Some ''u1'')
      (Some ''Team'') (Some []) ''g1'' 5 = (registries (fst (run initial_server three_users)), []) \<and>
   snd (create_group (registries (fst (run initial_server three_users))) (Some ''u1'')
      (Some ''Team'') (Some [''u2'', ''u9'']) ''g1'' 5) =
     [(ToSocket ''s1'', NewChat ''g1'' ''Team'' Group [''u1'', ''u2'', ''u9''] False),
      (ToSocket ''s2'', NewChat ''g1'' ''Team'' Group [''u1'', ''u2'', ''u9''] False)]"
proof -
  have h: "handles_ok (users (registries (fst (run initial_server three_users))))"
    by code_simp
  have a: "create_group (registries (fst (run initial_server three_users))) (Some ''u1'')
      (Some ''Team'') (Some []) ''g1'' 5 = (registries (fst (run initial_server three_users)), [])"
    using create_group_result [OF h, where cur = "Some ''u1''" and name = "Some ''Team''"
        and pids = "Some []" and gid = "''g1''" and t = 5]
    by simp
  have b: "snd (create_group (registries (fst (run initial_server three_users))) (Some ''u1'')
      (Some ''Team'') (Some [''u2'', ''u9'']) ''g1'' 5) =
     [(ToSocket ''s1'', NewChat ''g1'' ''Team'' Group [''u1'', ''u2'', ''u9''] False),
      (ToSocket ''s2'', NewChat ''g1'' ''Team'' Group [''u1'', ''u2'', ''u9''] False)]"
    by code_simp
  from h a b show ?thesis by simp
qed

subsection \<open>Login of an identified session\<close>

text \<open>
  Claim C9, as stated: a \<^verbatim>\<open>login\<close> on a connection that is already bound to a user does
  nothing. On the connection \<open>s1\<close>, bound to \<open>u1\<close>, a login as \<open>bob\<close> creates the user
  \<open>u2\<close>, binds the connection to it and emits both login events.
\<close>

theorem second_login_counterexample:
  "currentUserId (fst (step initial_server (''s1'', Login (Some ''alice''), at_time ''u1'' 1)))
     ''s1'' = Some ''u1'' \<and>
   currentUserId (fst (step (fst (step initial_server
       (''s1'', Login (Some ''alice''), at_time ''u1'' 1)))
       (''s1'', Login (Some ''bob''), at_time ''u2'' 2))) ''s1'' = Some ''u2'' \<and>
   users (registries (fst (step (fst (step initial_server
       (''s1'', Login (Some ''alice''), at_time ''u1'' 1)))
       (''s1'', Login (Some ''bob''), at_time ''u2'' 2)))) =
     [(''u1'', \<lparr>username = Some ''alice'', socketId = ''s1'', online = True, createdAt = 1\<rparr>),
      (''u2'', \<lparr>username = Some ''bob'', socketId = ''s1'', online = True, createdAt = 2\<rparr>)] \<and>
   snd (step (fst (step initial_server (''s1'', Login (Some ''alice''), at_time ''u1'' 1)))
       (''s1'', Login (Some ''bob''), at_time ''u2'' 2)) =
     [(ToSocket ''s1'', LoginSuccess ''u2'' (Some ''bob'') []),
      (BroadcastExcept ''s1'', UserOnline ''u2'' (Some ''bob''))]"
  by code_simp

text \<open>
  Claim C9, amended. A \<^verbatim>\<open>login\<close> is handled the same whatever the connection was bound
  to: the registries become those of the login, the connection is bound to the id the
  name resolves to (the first user of that name, else the generated id), and the reply
  and the presence broadcast are emitted.
\<close>

theorem login_in_any_session_state:
  "(case step sv (sid, Login name, e) of (sv', out) \<Rightarrow>
      registries sv' = fst (login (registries sv) sid name (gen_id e) (now e)) \<and>
      currentUserId sv' sid =
        Some (case find_user name (users (registries sv)) of
                None \<Rightarrow> gen_id e
              | Some k \<Rightarrow> if k = [] then gen_id e else k) \<and>
      (\<exists>uid cs. currentUserId sv' sid = Some uid \<and>
         out = [(ToSocket sid, LoginSuccess uid name cs), (BroadcastExcept sid, UserOnline uid name)]))
   \<and> step (sv\<lparr>currentUserId := (currentUserId sv)(sid := c)\<rparr>) (sid, Login name, e)
       = step sv (sid, Login name, e)"
  by (auto simp: step_def login_def Let_def truthy_def split: option.splits prod.splits)

theorem login_in_any_session_state_witness:
  "step ((fst (step initial_server (''s1'', Login (Some ''alice''), at_time ''u1'' 1)))
          \<lparr>currentUserId := (currentUserId (fst (step initial_server
              (''s1'', Login (Some ''alice''), at_time ''u1'' 1))))(''s1'' := None)\<rparr>)
      (''s1'', Login (Some ''bob''), at_time ''u2'' 2)
   = step (fst (step initial_server (''s1'', Login (Some ''alice''), at_time ''u1'' 1)))
      (''s1'', Login (Some ''bob''), at_time ''u2'' 2)"
  using login_in_any_session_state [where sv = "fst (step initial_server
      (''s1'', Login (Some ''alice''), at_time ''u1'' 1))" and sid = "''s1''"
      and name = "Some ''bob''" and e = "at_time ''u2'' 2" and c = None]
  by simp

subsection \<open>Fan-out of a message\<close>

lemma message_fanout_eq:
  "handles_ok us \<Longrightarrow>
   message_fanout us cur cid m ps =
     map (\<lambda>p. (ToSocket (handle_of us p), NewMessage cid (view_of m (p = cur))))
       (filter (is_online us) ps)"
  by (induction ps) (simp_all add: deliverable_online)

lemma send_message_valid:
  assumes "uid \<noteq> []" and "cid \<noteq> []" and "truthy text_opt \<or> file_opt \<noteq> None"
    and "map_get cid (chats reg) = Some c" and "uid \<in> set (participants c)"
  shows "send_message reg (Some uid) (Some cid) text_opt file_opt gid t =
     (reg\<lparr>messages := map_set cid
            (messages_of reg cid @
             [\<lparr>msg_id = gid, chatId = cid, senderId = uid,
               senderName = or_unknown (Option.bind (map_get uid (users reg)) username),
               msg_text = or_empty text_opt, msg_file = file_opt, timestamp = t,
               read = False\<rparr>])
            (messages reg)\<rparr>,
      message_fanout (users reg) uid cid
        \<lparr>msg_id = gid, chatId = cid, senderId = uid,
         senderName = or_unknown (Option.bind (map_get uid (users reg)) username),
         msg_text = or_empty text_opt, msg_file = file_opt, timestamp = t, read = False\<rparr>
        (participants c))"
  using assms by (auto simp: send_message_def Let_def)

text \<open>
  Claim C2. A valid \<^verbatim>\<open>send-message\<close> (an identified caller who is a participant of the
  chat, with a text or a file) appends the message and emits one \<^verbatim>\<open>new-message\<close> for
  each participant of the chat that is online, to that participant's connection, tagged
  \<open>sent = (participant = sender)\<close>: every emitted event goes to an online participant,
  every online participant gets one, the sender among them. The stored connection handles
  are non-empty, as they are in every state the server reaches from connections with
  non-empty ids (lemma \<open>reachable_invariants\<close>).
\<close>

theorem send_message_fanout:
  assumes "handles_ok (users reg)"
    and "uid \<noteq> []" and "cid \<noteq> []" and "truthy text_opt \<or> file_opt \<noteq> None"
    and "map_get cid (chats reg) = Some c" and "uid \<in> set (participants c)"
  shows "case send_message reg (Some uid) (Some cid) text_opt file_opt gid t of (reg', out) \<Rightarrow>
    (\<exists>m. messages_of reg' cid = messages_of reg cid @ [m] \<and> msg_id m = gid \<and> senderId m = uid \<and>
       out = map (\<lambda>p. (ToSocket (handle_of (users reg) p), NewMessage cid (view_of m (p = uid))))
               (filter (is_online (users reg)) (participants c)) \<and>
       (\<forall>(tg, pl) \<in> set out. \<exists>p \<in> set (participants c). is_online (users reg) p \<and>
           tg = ToSocket (handle_of (users reg) p) \<and>
           pl = NewMessage cid (view_of m (p = uid)) \<and> v_sent (view_of m (p = uid)) = (p = uid)) \<and>
       (\<forall>p \<in> set (participants c). is_online (users reg) p \<longrightarrow>
           (ToSocket (handle_of (users reg) p), NewMessage cid (view_of m (p = uid))) \<in> set out) \<and>
       (is_online (users reg) uid \<longrightarrow>
           (ToSocket (handle_of (users reg) uid), NewMessage cid (view_of m True)) \<in> set out))"
proof -
  let ?m = "\<lparr>msg_id = gid, chatId = cid, senderId = uid,
         senderName = or_unknown (Option.bind (map_get uid (users reg)) username),
         msg_text = or_empty text_opt, msg_file = file_opt, timestamp = t, read = False\<rparr>"
  let ?out = "map (\<lambda>p. (ToSocket (handle_of (users reg) p), NewMessage cid (view_of ?m (p = uid))))
               (filter (is_online (users reg)) (participants c))"
  have res: "send_message reg (Some uid) (Some cid) text_opt file_opt gid t =
     (reg\<lparr>messages := map_set cid (messages_of reg cid @ [?m]) (messages reg)\<rparr>, ?out)"
    using send_message_valid [OF assms(2-6)] message_fanout_eq [OF assms(1)] by simp
  have log: "messages_of (reg\<lparr>messages := map_set cid (messages_of reg cid @ [?m]) (messages reg)\<rparr>) cid
      = messages_of reg cid @ [?m]"
    by (simp add: messages_of_def map_get_map_set)
  have only: "\<forall>(tg, pl) \<in> set ?out. \<exists>p \<in> set (participants c). is_online (users reg) p \<and>
           tg = ToSocket (handle_of (users reg) p) \<and>
           pl = NewMessage cid (view_of ?m (p = uid)) \<and> v_sent (view_of ?m (p = uid)) = (p = uid)"
    by (auto simp: view_of_def)
  have every: "\<forall>p \<in> set (participants c). is_online (users reg) p \<longrightarrow>
           (ToSocket (handle_of (users reg) p), NewMessage cid (view_of ?m (p = uid))) \<in> set ?out"
    by auto
  have sender: "is_online (users reg) uid \<longrightarrow>
           (ToSocket (handle_of (users reg) uid), NewMessage cid (view_of ?m True)) \<in> set ?out"
    using every assms(6) by fastforce
  show ?thesis
    unfolding res prod.case
    by (rule exI [of _ ?m]) (use log only every sender in simp)
qed

theorem send_message_fanout_witness:
  "handles_ok (users (registries (fst (run initial_server group_scenario)))) \<and>
   truthy (Some ''hi'') \<and>
   map_get ''g1'' (chats (registries (fst (run initial_server group_scenario)))) =
     Some \<lparr>participants = [''u1'', ''u2'', ''u3''], ctype = Group, cname = Some ''Team'',
           chat_createdAt = 6, createdBy = Some ''u1''\<rparr> \<and>
   is_online (users (registries (fst (run initial_server group_scenario)))) ''u4'' \<and>
   snd (send_message (registries (fst (run initial_server group_scenario))) (Some ''u1'')
      (Some ''g1'') (Some ''hi'') None ''m1'' 9) =
     [(ToSocket ''s1'', NewMessage ''g1''
         \<lparr>v_id = ''m1'', v_text = ''hi'', v_file = None, v_senderId = ''u1'',
          v_senderName = ''alice'', v_timestamp = 9, v_sent = True\<rparr>),
      (ToSocket ''s2'', NewMessage ''g1''
         \<lparr>v_id = ''m1'', v_text = ''hi'', v_file = None, v_senderId = ''u1'',
          v_senderName = ''alice'', v_timestamp = 9, v_sent = False\<rparr>)]"
proof -
  let ?reg = "registries (fst (run initial_server group_scenario))"
  let ?c = "\<lparr>participants = [''u1'', ''u2'', ''u3''], ctype = Group, cname = Some ''Team'',
           chat_createdAt = 6, createdBy = Some ''u1''\<rparr>"
  have h: "handles_ok (users ?reg)" by code_simp
  have c: "map_get ''g1'' (chats ?reg) = Some ?c" by code_simp
  have p: "''u1'' \<in> set (participants ?c)" by simp
  have tr: "truthy (Some ''hi'') \<or> (None :: file_info option) \<noteq> None" by simp
  have d: "is_online (users ?reg) ''u4''" by code_simp
  have out: "snd (send_message ?reg (Some ''u1'') (Some ''g1'') (Some ''hi'') None ''m1'' 9) =
     [(ToSocket ''s1'', NewMessage ''g1''
         \<lparr>v_id = ''m1'', v_text = ''hi'', v_file = None, v_senderId = ''u1'',
          v_senderName = ''alice'', v_timestamp = 9, v_sent = True\<rparr>),
      (ToSocket ''s2'', NewMessage ''g1''
         \<lparr>v_id = ''m1'', v_text = ''hi'', v_file = None, v_senderId = ''u1'',
          v_senderName = ''alice'', v_timestamp = 9, v_sent = False\<rparr>)]"
    by code_simp
  note send_message_fanout [OF h _ _ tr c p, where gid = "''m1''" and t = 9]
  with h c d out show ?thesis by simp
qed

subsection \<open>Invariants of the registries\<close>

lemma list_all_map_set:
  "list_all P m \<Longrightarrow> P (k, v) \<Longrightarrow> list_all P (map_set k v m)"
  by (induction m) auto

lemma list_all_map_modify:
  "list_all P m \<Longrightarrow> (\<And>v. P (k, v) \<Longrightarrow> P (k, f v)) \<Longrightarrow> list_all P (map_modify k f m)"
  by (induction m) auto

lemma step_registries:
  "registries (fst (step sv (sid, ev, e))) =
     fst (handle (registries sv) sid (currentUserId sv sid) ev e)"
  by (simp add: step_def split_beta)

lemma run_Cons_fst: "fst (run sv (i # is)) = fst (run (fst (step sv i)) is)"
  by (simp add: split_beta)

lemma users_login:
  "users (fst (login reg sid name gid t)) =
     (if truthy (find_user name (users reg))
      then map_modify (the (find_user name (users reg)))
             (\<lambda>u. u\<lparr>socketId := sid, online := True\<rparr>) (users reg)
      else map_set gid \<lparr>username = name, socketId = sid, online = True, createdAt = t\<rparr>
             (users reg))"
  by (simp add: login_def Let_def)

lemma users_disconnect:
  "users (fst (disconnect reg sid cur)) = users reg \<or>
   users (fst (disconnect reg sid cur)) =
     map_modify (the cur) (\<lambda>u. u\<lparr>online := False\<rparr>) (users reg)"
  by (simp add: disconnect_def split: option.splits)

lemma users_unchanged:
  "users (fst (get_users reg sid cur)) = users reg"
  "users (fst (start_chat reg sid cur tg t)) = users reg"
  "users (fst (send_message reg cur c tx f gid t)) = users reg"
  "users (fst (upload_file reg sid cur c d st)) = users reg"
  "users (fst (typing reg cur c b)) = users reg"
  "users (fst (create_group reg cur n ps gid t)) = users reg"
  "users (fst (get_messages reg sid cur c)) = users reg"
  by (simp_all add: get_users_def start_chat_def send_message_def upload_file_def typing_def
      create_group_def get_messages_def Let_def split: option.splits)

lemma handle_handles_ok:
  assumes "handles_ok (users reg)" and "sid \<noteq> []"
  shows "handles_ok (users (fst (handle reg sid cur ev e)))"
proof (cases ev)
  case (Login name)
  have "handles_ok (users (fst (login reg sid name (gen_id e) (now e))))"
    unfolding users_login handles_ok_def using assms
    by (auto simp: handles_ok_def intro!: list_all_map_set list_all_map_modify)
  then show ?thesis by (simp add: Login split_beta)
next
  case Disconnect
  have "handles_ok (users (fst (disconnect reg sid cur)))"
    using users_disconnect [of reg sid cur] assms
    by (auto simp: handles_ok_def intro!: list_all_map_modify)
  then show ?thesis by (simp add: Disconnect split_beta)
qed (use assms in \<open>simp_all add: users_unchanged split_beta\<close>)

lemma run_handles_ok:
  "handles_ok (users (registries sv)) \<Longrightarrow> list_all (\<lambda>(sid, ev, e). sid \<noteq> []) is \<Longrightarrow>
   handles_ok (users (registries (fst (run sv is))))"
proof (induction "is" arbitrary: sv)
  case Nil
  then show ?case by simp
next
  case (Cons i "is")
  obtain sid ev e where i: "i = (sid, ev, e)" by (cases i) auto
  from Cons.prems i have "handles_ok (users (registries (fst (step sv i))))"
    by (simp add: step_registries handle_handles_ok)
  with Cons.IH Cons.prems(2) have "handles_ok (users (registries (fst (run (fst (step sv i)) is))))"
    by simp
  then show ?case by (simp only: run_Cons_fst)
qed

subsection \<open>The message log\<close>

lemma log_inv_absent:
  "log_inv reg \<Longrightarrow> \<not> map_has k (chats reg) \<Longrightarrow> map_get k (messages reg) = None"
  by (cases "map_get k (messages reg)")
    (auto simp: log_inv_def list_all_iff dest: map_get_in_set)

lemma map_has_map_set: "map_has k (map_set k' v m) = (k = k' \<or> map_has k m)"
  by (simp add: map_has_def map_get_map_set)

lemma messages_unchanged:
  "messages (fst (login reg sid name gid t)) = messages reg"
  "messages (fst (get_users reg sid cur)) = messages reg"
  "messages (fst (upload_file reg sid cur c d st)) = messages reg"
  "messages (fst (typing reg cur c b)) = messages reg"
  "messages (fst (get_messages reg sid cur c)) = messages reg"
  "messages (fst (disconnect reg sid cur)) = messages reg"
  by (simp_all add: login_def get_users_def upload_file_def typing_def get_messages_def
      disconnect_def Let_def split: option.splits)

lemma chats_unchanged:
  "chats (fst (login reg sid name gid t)) = chats reg"
  "chats (fst (get_users reg sid cur)) = chats reg"
  "chats (fst (upload_file reg sid cur c d st)) = chats reg"
  "chats (fst (typing reg cur c b)) = chats reg"
  "chats (fst (get_messages reg sid cur c)) = chats reg"
  "chats (fst (disconnect reg sid cur)) = chats reg"
  "chats (fst (send_message reg cur c tx f gid t)) = chats reg"
  by (simp_all add: login_def get_users_def upload_file_def typing_def get_messages_def
      disconnect_def send_message_def Let_def split: option.splits)

lemma start_chat_log:
  assumes "log_inv reg"
  shows "messages_of (fst (start_chat reg sid cur tg t)) c = messages_of reg c"
  using log_inv_absent [OF assms]
  by (auto simp: start_chat_def Let_def messages_of_def map_get_map_set)

lemma create_group_log:
  assumes "log_inv reg" and "\<not> map_has gid (chats reg)"
  shows "messages_of (fst (create_group reg cur n ps gid t)) c = messages_of reg c"
  using log_inv_absent [OF assms]
  by (auto simp: create_group_def Let_def messages_of_def map_get_map_set)

lemma send_message_log:
  "\<exists>ms. messages_of (fst (send_message reg cur cid tx f gid t)) c = messages_of reg c @ ms"
  by (auto simp: send_message_def Let_def messages_of_def map_get_map_set split: option.splits)

lemma handle_log:
  assumes "log_inv reg" and "fresh_input reg (sid, ev, e)"
  shows "\<exists>ms. messages_of (fst (handle reg sid cur ev e)) c = messages_of reg c @ ms"
proof (cases ev)
  case (StartChat tg)
  then show ?thesis using start_chat_log [OF assms(1)] by (simp add: split_beta)
next
  case (SendMessage cid tx f)
  then show ?thesis using send_message_log by (simp add: split_beta)
next
  case (CreateGroup n ps)
  with assms(2) have "\<not> map_has (gen_id e) (chats reg)" by (simp add: fresh_input_def)
  then show ?thesis using create_group_log [OF assms(1)] CreateGroup by (simp add: split_beta)
qed (simp_all add: messages_of_def messages_unchanged split_beta)

lemma set_map_set: "set (map_set k v m) \<subseteq> insert (k, v) (set m)"
  by (induction m) (auto split: if_splits)

lemma log_inv_update:
  assumes "log_inv reg" and "\<And>k. map_has k (chats reg) \<Longrightarrow> map_has k cs" and "map_has k0 cs"
  shows "log_inv (reg\<lparr>chats := cs, messages := map_set k0 v (messages reg)\<rparr>)"
  using assms set_map_set [of k0 v "messages reg"]
  by (fastforce simp: log_inv_def list_all_iff)

lemma log_inv_start_chat: "log_inv reg \<Longrightarrow> log_inv (fst (start_chat reg sid cur tg t))"
  by (auto simp: start_chat_def Let_def map_has_map_set intro!: log_inv_update)

lemma log_inv_send_message:
  assumes "log_inv reg"
  shows "log_inv (fst (send_message reg cur cid tx f gid t))"
proof -
  have "log_inv (reg\<lparr>chats := chats reg, messages := map_set k v (messages reg)\<rparr>)"
    if "map_get k (chats reg) = Some c" for k v c
    using assms that by (intro log_inv_update) (simp_all add: map_has_def)
  then show ?thesis
    using assms by (auto simp: send_message_def Let_def split: option.splits)
qed

lemma log_inv_create_group:
  "log_inv reg \<Longrightarrow> log_inv (fst (create_group reg cur n ps gid t))"
  by (auto simp: create_group_def Let_def map_has_map_set intro!: log_inv_update)

lemma log_inv_handle:
  assumes "log_inv reg"
  shows "log_inv (fst (handle reg sid cur ev e))"
proof (cases ev)
  case (StartChat tg)
  then show ?thesis using log_inv_start_chat [OF assms] by (simp add: split_beta)
next
  case (SendMessage cid tx f)
  then show ?thesis using log_inv_send_message [OF assms] by (simp add: split_beta)
next
  case (CreateGroup n ps)
  then show ?thesis using log_inv_create_group [OF assms] by (simp add: split_beta)
qed (use assms in \<open>simp_all add: log_inv_def messages_unchanged chats_unchanged split_beta\<close>)

lemma run_log:
  "log_inv (registries sv) \<Longrightarrow> fresh_run sv is \<Longrightarrow>
   log_inv (registries (fst (run sv is))) \<and>
   (\<exists>ms. messages_of (registries (fst (run sv is))) c = messages_of (registries sv) c @ ms)"
proof (induction "is" arbitrary: sv)
  case Nil
  then show ?case by simp
next
  case (Cons i "is")
  obtain sid ev e where i: "i = (sid, ev, e)" by (cases i) auto
  let ?sv = "fst (step sv i)"
  from Cons.prems have fr: "fresh_input (registries sv) (sid, ev, e)" and rest: "fresh_run ?sv is"
    by (simp_all add: i)
  have inv: "log_inv (registries ?sv)"
    using log_inv_handle [OF Cons.prems(1)] by (simp add: i step_registries)
  obtain ms1 where one: "messages_of (registries ?sv) c = messages_of (registries sv) c @ ms1"
    using handle_log [OF Cons.prems(1) fr] by (auto simp: i step_registries)
  from Cons.IH [OF inv rest] obtain ms2 where
    "log_inv (registries (fst (run ?sv is)))"
    "messages_of (registries (fst (run ?sv is))) c = messages_of (registries ?sv) c @ ms2"
    by auto
  with one show ?case by (simp only: run_Cons_fst) simp
qed

text \<open>
  Claim C4. From any state in which every message log belongs to a chat, whatever events
  follow (the generated chat ids being new), the log of every chat afterwards is the log
  it was, with messages added at the end: nothing is deleted or reordered. A valid
  \<^verbatim>\<open>send-message\<close> adds its message at the end of the log of its chat and leaves the
  other logs alone, and \<^verbatim>\<open>get-messages\<close> answers a participant with the whole log in
  the order of the log.
\<close>

theorem message_log_append_only:
  assumes "log_inv (registries sv)" and "fresh_run sv is"
  shows "(\<exists>ms. messages_of (registries (fst (run sv is))) c = messages_of (registries sv) c @ ms) \<and>
    (uid \<noteq> [] \<and> cid \<noteq> [] \<and> (truthy tx \<or> f \<noteq> None) \<and>
     map_get cid (chats reg) = Some ch \<and> uid \<in> set (participants ch) \<longrightarrow>
       (\<exists>m. messages_of (fst (send_message reg (Some uid) (Some cid) tx f gid t)) cid
               = messages_of reg cid @ [m] \<and> msg_id m = gid \<and> senderId m = uid) \<and>
       (\<forall>c'. c' \<noteq> cid \<longrightarrow>
          messages_of (fst (send_message reg (Some uid) (Some cid) tx f gid t)) c'
            = messages_of reg c')) \<and>
    (uid \<noteq> [] \<and> cid \<noteq> [] \<and> map_get cid (chats reg) = Some ch \<and> uid \<in> set (participants ch) \<longrightarrow>
       get_messages reg sid (Some uid) (Some cid) =
         (reg, [(ToSocket sid,
                 MessagesLoaded cid
                   (map (\<lambda>msg. view_of msg (senderId msg = uid)) (messages_of reg cid)))]) \<and>
       map v_id (map (\<lambda>msg. view_of msg (senderId msg = uid)) (messages_of reg cid))
         = map msg_id (messages_of reg cid))"
proof (intro conjI impI)
  show "\<exists>ms. messages_of (registries (fst (run sv is))) c = messages_of (registries sv) c @ ms"
    using run_log [OF assms] by simp
next
  assume v: "uid \<noteq> [] \<and> cid \<noteq> [] \<and> (truthy tx \<or> f \<noteq> None) \<and>
     map_get cid (chats reg) = Some ch \<and> uid \<in> set (participants ch)"
  then have res: "fst (send_message reg (Some uid) (Some cid) tx f gid t) =
      reg\<lparr>messages := map_set cid
            (messages_of reg cid @
             [\<lparr>msg_id = gid, chatId = cid, senderId = uid,
               senderName = or_unknown (Option.bind (map_get uid (users reg)) username),
               msg_text = or_empty tx, msg_file = f, timestamp = t, read = False\<rparr>])
            (messages reg)\<rparr>"
    using send_message_valid [of uid cid tx f reg ch gid t] by simp
  show "\<exists>m. messages_of (fst (send_message reg (Some uid) (Some cid) tx f gid t)) cid
               = messages_of reg cid @ [m] \<and> msg_id m = gid \<and> senderId m = uid"
    unfolding res by (simp add: messages_of_def map_get_map_set)
  show "\<forall>c'. c' \<noteq> cid \<longrightarrow>
          messages_of (fst (send_message reg (Some uid) (Some cid) tx f gid t)) c'
            = messages_of reg c'"
    unfolding res by (simp add: messages_of_def map_get_map_set)
next
  assume "uid \<noteq> [] \<and> cid \<noteq> [] \<and> map_get cid (chats reg) = Some ch \<and> uid \<in> set (participants ch)"
  then show "get_messages reg sid (Some uid) (Some cid) =
         (reg, [(ToSocket sid,
                 MessagesLoaded cid
                   (map (\<lambda>msg. view_of msg (senderId msg = uid)) (messages_of reg cid)))])"
    by (simp add: get_messages_def)
next
  show "map v_id (map (\<lambda>msg. view_of msg (senderId msg = uid)) (messages_of reg cid))
         = map msg_id (messages_of reg cid)"
    by (simp add: view_of_def)
qed

theorem message_log_append_only_witness:
  "log_inv (registries (fst (run initial_server three_users))) \<and>
   fresh_run (fst (run initial_server three_users))
     [(''s2'', SendMessage (Some ''u1-u2'') (Some ''hello'') None, at_time ''m2'' 6),
      (''s4'', Login (Some ''dave''), at_time ''u4'' 7),
      (''s1'', CreateGroup (Some ''Team'') (Some [''u2'']), at_time ''g1'' 8),
      (''s2'', StartChat (Some ''u1''), at_time ''x'' 9)] \<and>
   map msg_id (messages_of (registries (fst (run initial_server chat_scenario))) ''u1-u2'')
     = [''m1'', ''m2'', ''m3''] \<and>
   snd (step (fst (run initial_server chat_scenario))
          (''s2'', GetMessages (Some ''u1-u2''), at_time ''x'' 9)) =
     [(ToSocket ''s2'', MessagesLoaded ''u1-u2''
        [\<lparr>v_id = ''m1'', v_text = ''hi'', v_file = None, v_senderId = ''u1'',
          v_senderName = ''alice'', v_timestamp = 5, v_sent = False\<rparr>,
         \<lparr>v_id = ''m2'', v_text = ''hello'', v_file = None, v_senderId = ''u2'',
          v_senderName = ''bob'', v_timestamp = 6, v_sent = True\<rparr>,
         \<lparr>v_id = ''m3'', v_text = [], v_file = Some a_file, v_senderId = ''u1'',
          v_senderName = ''alice'', v_timestamp = 7, v_sent = False\<rparr>])]"
proof -
  let ?is = "[(''s2'', SendMessage (Some ''u1-u2'') (Some ''hello'') None, at_time ''m2'' 6),
      (''s4'', Login (Some ''dave''), at_time ''u4'' 7),
      (''s1'', CreateGroup (Some ''Team'') (Some [''u2'']), at_time ''g1'' 8),
      (''s2'', StartChat (Some ''u1''), at_time ''x'' 9)]"
  have a: "log_inv (registries (fst (run initial_server three_users)))" by code_simp
  have b: "fresh_run (fst (run initial_server three_users)) ?is" by code_simp
  have c: "map msg_id (messages_of (registries (fst (run initial_server chat_scenario))) ''u1-u2'')
     = [''m1'', ''m2'', ''m3'']" by code_simp
  have d: "snd (step (fst (run initial_server chat_scenario))
          (''s2'', GetMessages (Some ''u1-u2''), at_time ''x'' 9)) =
     [(ToSocket ''s2'', MessagesLoaded ''u1-u2''
        [\<lparr>v_id = ''m1'', v_text = ''hi'', v_file = None, v_senderId = ''u1'',
          v_senderName = ''alice'', v_timestamp = 5, v_sent = False\<rparr>,
         \<lparr>v_id = ''m2'', v_text = ''hello'', v_file = None, v_senderId = ''u2'',
          v_senderName = ''bob'', v_timestamp = 6, v_sent = True\<rparr>,
         \<lparr>v_id = ''m3'', v_text = [], v_file = Some a_file, v_senderId = ''u1'',
          v_senderName = ''alice'', v_timestamp = 7, v_sent = False\<rparr>])]" by code_simp
  note message_log_append_only [OF a b]
  with a b c d show ?thesis by simp
qed

subsection \<open>Identity\<close>

lemma find_user_None: "find_user name us = None \<longleftrightarrow> (\<forall>(k, u) \<in> set us. username u \<noteq> name)"
  by (induction us) (auto split: if_splits)

lemma find_user_key: "find_user name us = Some uid \<Longrightarrow> uid \<in> fst ` set us"
  by (induction us) (auto split: if_splits)

lemma find_user_Some:
  "find_user name us = Some uid \<Longrightarrow> distinct (map fst us) \<Longrightarrow>
   \<exists>u. map_get uid us = Some u \<and> username u = name"
proof (induction us)
  case Nil
  then show ?case by simp
next
  case (Cons p us)
  obtain k u where p: "p = (k, u)" by (cases p) auto
  show ?case
  proof (cases "username u = name")
    case True
    with Cons.prems p show ?thesis by simp
  next
    case False
    with Cons.prems p have f: "find_user name us = Some uid" by simp
    then have "uid \<in> fst ` set us" by (rule find_user_key)
    with Cons.prems(2) p have "k \<noteq> uid" by auto
    with Cons.IH [OF f] Cons.prems(2) p show ?thesis by simp
  qed
qed

lemma find_user_append:
  "find_user name (us @ [(k, u)]) =
     (case find_user name us of
        Some uid \<Rightarrow> Some uid
      | None \<Rightarrow> if username u = name then Some k else None)"
  by (induction us) auto

lemma find_user_map_modify:
  "(\<And>u. username (f u) = username u) \<Longrightarrow> find_user name (map_modify k f us) = find_user name us"
  by (induction us) auto

lemma names_map_modify:
  "(\<And>u. username (f u) = username u) \<Longrightarrow>
   map (\<lambda>(k, u). username u) (map_modify k f us) = map (\<lambda>(k, u). username u) us"
  by (induction us) auto

lemma keys_ok_truthy:
  "keys_ok us \<Longrightarrow> truthy (find_user name us) = (find_user name us \<noteq> None)"
proof (cases "find_user name us")
  case None
  then show ?thesis by simp
next
  case (Some uid)
  assume "keys_ok us"
  with find_user_key [OF Some] have "uid \<noteq> []"
    by (auto simp: keys_ok_def list_all_iff)
  with Some show ?thesis by simp
qed

lemma login_userId:
  "keys_ok (users reg) \<Longrightarrow>
   fst (snd (login reg sid name gid t)) =
     (case find_user name (users reg) of None \<Rightarrow> gid | Some uid \<Rightarrow> uid)"
  by (auto simp: login_def Let_def keys_ok_truthy split: option.splits)

lemma login_users:
  "keys_ok (users reg) \<Longrightarrow>
   users (fst (login reg sid name gid t)) =
     (case find_user name (users reg) of
        None \<Rightarrow> map_set gid \<lparr>username = name, socketId = sid, online = True, createdAt = t\<rparr>
                  (users reg)
      | Some uid \<Rightarrow> map_modify uid (\<lambda>u. u\<lparr>socketId := sid, online := True\<rparr>) (users reg))"
  by (auto simp: users_login keys_ok_truthy split: option.splits)

lemma login_find_user:
  assumes "keys_ok (users reg)" and "\<not> map_has gid (users reg)"
  shows "find_user name (users (fst (login reg sid name gid t)))
         = Some (fst (snd (login reg sid name gid t)))"
  using assms(2)
  by (auto simp: login_userId [OF assms(1)] login_users [OF assms(1)] find_user_map_modify
      map_has_def map_set_absent find_user_append split: option.splits)

lemma keys_ok_map_modify: "keys_ok us \<Longrightarrow> keys_ok (map_modify k f us)"
  by (auto simp: keys_ok_def keys_map_modify intro!: list_all_map_modify)

lemma keys_ok_map_set:
  "keys_ok us \<Longrightarrow> k \<noteq> [] \<Longrightarrow> \<not> map_has k us \<Longrightarrow> keys_ok (map_set k v us)"
  by (auto simp: keys_ok_def map_has_def map_set_absent map_get_None_iff)

lemma login_keys_ok:
  assumes "keys_ok (users reg)" and "gid \<noteq> []" and "\<not> map_has gid (users reg)"
  shows "keys_ok (users (fst (login reg sid name gid t)))"
  using assms
  by (auto simp: login_users [OF assms(1)] keys_ok_map_modify keys_ok_map_set
      split: option.splits)

lemma login_names_ok:
  assumes "keys_ok (users reg)" and "\<not> map_has gid (users reg)" and "names_ok (users reg)"
  shows "names_ok (users (fst (login reg sid name gid t)))"
proof (cases "find_user name (users reg)")
  case None
  then have "name \<notin> set (map (\<lambda>(k, u). username u) (users reg))"
    by (auto simp: find_user_None)
  with assms(2,3) None show ?thesis
    by (simp add: login_users [OF assms(1)] names_ok_def map_has_def map_set_absent)
next
  case (Some uid)
  with assms(3) show ?thesis
    by (simp add: login_users [OF assms(1)] names_ok_def names_map_modify)
qed

lemma handle_identity:
  assumes "keys_ok (users reg)" and "fresh_input reg (sid, ev, e)"
  shows "keys_ok (users (fst (handle reg sid cur ev e))) \<and>
         (find_user name (users reg) = Some uid \<longrightarrow>
            find_user name (users (fst (handle reg sid cur ev e))) = Some uid)"
proof (cases ev)
  case (Login n)
  from assms(2) Login have fr: "gen_id e \<noteq> []" "\<not> map_has (gen_id e) (users reg)"
    by (simp_all add: fresh_input_def)
  have k: "keys_ok (users (fst (login reg sid n (gen_id e) (now e))))"
    by (rule login_keys_ok [OF assms(1) fr])
  have f: "find_user name (users (fst (login reg sid n (gen_id e) (now e)))) = Some uid"
    if "find_user name (users reg) = Some uid"
    using that fr(2)
    by (auto simp: login_users [OF assms(1)] find_user_map_modify map_has_def map_set_absent
        find_user_append split: option.splits)
  from k f show ?thesis by (simp add: Login split_beta)
next
  case Disconnect
  have "keys_ok (users (fst (disconnect reg sid cur))) \<and>
        find_user name (users (fst (disconnect reg sid cur))) = find_user name (users reg)"
    using users_disconnect [of reg sid cur] assms(1)
    by (auto simp: keys_ok_map_modify find_user_map_modify)
  then show ?thesis by (simp add: Disconnect split_beta)
qed (use assms(1) in \<open>simp_all add: users_unchanged split_beta\<close>)

lemma run_identity:
  "keys_ok (users (registries sv)) \<Longrightarrow> fresh_run sv is \<Longrightarrow>
   find_user name (users (registries sv)) = Some uid \<Longrightarrow>
   keys_ok (users (registries (fst (run sv is)))) \<and>
   find_user name (users (registries (fst (run sv is)))) = Some uid"
proof (induction "is" arbitrary: sv)
  case Nil
  then show ?case by simp
next
  case (Cons i "is")
  obtain sid ev e where i: "i = (sid, ev, e)" by (cases i) auto
  let ?sv = "fst (step sv i)"
  from Cons.prems have fr: "fresh_input (registries sv) (sid, ev, e)" and rest: "fresh_run ?sv is"
    by (simp_all add: i)
  from handle_identity [OF Cons.prems(1) fr, of "currentUserId sv sid" name uid] Cons.prems(3)
  have "keys_ok (users (registries ?sv))" "find_user name (users (registries ?sv)) = Some uid"
    by (simp_all add: i step_registries)
  from Cons.IH [OF this(1) rest this(2)] show ?case by (simp only: run_Cons_fst)
qed

lemma step_login:
  "step sv (sid, Login name, e) =
     (\<lparr>registries = fst (login (registries sv) sid name (gen_id e) (now e)),
       currentUserId = (currentUserId sv)
         (sid := Some (fst (snd (login (registries sv) sid name (gen_id e) (now e)))))\<rparr>,
      snd (snd (login (registries sv) sid name (gen_id e) (now e))))"
  by (simp add: step_def split_beta)

lemma login_existing:
  assumes "keys_ok (users reg)" and "find_user name (users reg) = Some uid"
  shows "fst (snd (login reg sid name gid t)) = uid"
    and "map fst (users (fst (login reg sid name gid t))) = map fst (users reg)"
    and "\<exists>u. map_get uid (users reg) = Some u \<and> username u = name \<and>
             map_get uid (users (fst (login reg sid name gid t)))
               = Some (u\<lparr>socketId := sid, online := True\<rparr>)"
    and "k \<noteq> uid \<Longrightarrow> map_get k (users (fst (login reg sid name gid t))) = map_get k (users reg)"
proof -
  show "fst (snd (login reg sid name gid t)) = uid"
    using assms by (simp add: login_userId)
  show "map fst (users (fst (login reg sid name gid t))) = map fst (users reg)"
    using assms by (simp add: login_users keys_map_modify)
  from assms have "distinct (map fst (users reg))" by (simp add: keys_ok_def)
  from find_user_Some [OF assms(2) this] obtain u where
    "map_get uid (users reg) = Some u" "username u = name" by auto
  then show "\<exists>u. map_get uid (users reg) = Some u \<and> username u = name \<and>
             map_get uid (users (fst (login reg sid name gid t)))
               = Some (u\<lparr>socketId := sid, online := True\<rparr>)"
    using assms by (simp add: login_users map_get_map_modify)
  show "map_get k (users (fst (login reg sid name gid t))) = map_get k (users reg)"
    if "k \<noteq> uid"
    using assms that by (simp add: login_users map_get_map_modify)
qed

lemma login_new:
  assumes "keys_ok (users reg)" and "\<not> map_has gid (users reg)"
    and "find_user name (users reg) = None"
  shows "fst (snd (login reg sid name gid t)) = gid"
    and "users (fst (login reg sid name gid t)) =
           users reg @ [(gid, \<lparr>username = name, socketId = sid, online = True, createdAt = t\<rparr>)]"
  using assms by (simp_all add: login_userId login_users map_has_def map_set_absent)

text \<open>
  Claim C6. A \<^verbatim>\<open>login\<close> with a name resolves to one user id. A user of that name exists
  exactly when the loop finds one; then that user's id is the result, no user is added,
  that user's connection handle is overwritten and its \<^verbatim>\<open>online\<close> flag set, and the other
  users are as they were. Otherwise a user with the generated id is added at the end. No
  two users ever share a name. And a later login with the same name, from any connection
  and after any events, resolves to the same id and adds no user. The generated ids are
  non-empty and new, and the keys of \<^verbatim>\<open>users\<close> are non-empty and distinct.
\<close>

theorem login_resolves_stable_id:
  assumes "keys_ok (users reg)" and "gid \<noteq> []" and "\<not> map_has gid (users reg)"
  shows "case login reg sid name gid t of (reg', userId, out) \<Rightarrow>
      ((find_user name (users reg) = None) = (\<forall>(k, u) \<in> set (users reg). username u \<noteq> name)) \<and>
      (\<forall>uid. find_user name (users reg) = Some uid \<longrightarrow>
          userId = uid \<and> map fst (users reg') = map fst (users reg) \<and>
          (\<exists>u. map_get uid (users reg) = Some u \<and> username u = name \<and>
               map_get uid (users reg') = Some (u\<lparr>socketId := sid, online := True\<rparr>)) \<and>
          (\<forall>k. k \<noteq> uid \<longrightarrow> map_get k (users reg') = map_get k (users reg))) \<and>
      (find_user name (users reg) = None \<longrightarrow>
          userId = gid \<and>
          users reg' = users reg @
            [(gid, \<lparr>username = name, socketId = sid, online = True, createdAt = t\<rparr>)]) \<and>
      (names_ok (users reg) \<longrightarrow> names_ok (users reg')) \<and>
      keys_ok (users reg') \<and>
      (\<forall>sv is sid2 e2. registries sv = reg' \<and> fresh_run sv is \<longrightarrow>
          (case step (fst (run sv is)) (sid2, Login name, e2) of (sv2, out2) \<Rightarrow>
             currentUserId sv2 sid2 = Some userId \<and>
             map fst (users (registries sv2)) = map fst (users (registries (fst (run sv is)))) \<and>
             (\<exists>u. map_get userId (users (registries sv2)) = Some u \<and>
                  username u = name \<and> socketId u = sid2 \<and> online u)))"
proof -
  let ?reg' = "fst (login reg sid name gid t)"
  let ?userId = "fst (snd (login reg sid name gid t))"
  have k': "keys_ok (users ?reg')" by (rule login_keys_ok [OF assms])
  have f': "find_user name (users ?reg') = Some ?userId"
    by (rule login_find_user [OF assms(1,3)])
  have later: "\<forall>sv is sid2 e2. registries sv = ?reg' \<and> fresh_run sv is \<longrightarrow>
          (case step (fst (run sv is)) (sid2, Login name, e2) of (sv2, out2) \<Rightarrow>
             currentUserId sv2 sid2 = Some ?userId \<and>
             map fst (users (registries sv2)) = map fst (users (registries (fst (run sv is)))) \<and>
             (\<exists>u. map_get ?userId (users (registries sv2)) = Some u \<and>
                  username u = name \<and> socketId u = sid2 \<and> online u))"
  proof (intro allI impI)
    fix sv "is" sid2 e2
    assume a: "registries sv = ?reg' \<and> fresh_run sv is"
    let ?r = "registries (fst (run sv is))"
    let ?sv2 = "fst (step (fst (run sv is)) (sid2, Login name, e2))"
    from a have fr: "fresh_run sv is" by simp
    from run_identity [OF _ fr, of name ?userId] k' f' a
    have k: "keys_ok (users ?r)" and f: "find_user name (users ?r) = Some ?userId"
      by simp_all
    from login_existing(1) [OF k f] have 1: "currentUserId ?sv2 sid2 = Some ?userId"
      by (simp add: step_login)
    from login_existing(2) [OF k f]
    have 2: "map fst (users (registries ?sv2)) = map fst (users ?r)"
      by (simp add: step_login)
    from login_existing(3) [OF k f, of sid2 "gen_id e2" "now e2"]
    have 3: "\<exists>u. map_get ?userId (users (registries ?sv2)) = Some u \<and>
                  username u = name \<and> socketId u = sid2 \<and> online u"
      by (auto simp: step_login)
    from 1 2 3
    show "case step (fst (run sv is)) (sid2, Login name, e2) of (sv2, out2) \<Rightarrow>
             currentUserId sv2 sid2 = Some ?userId \<and>
             map fst (users (registries sv2)) = map fst (users (registries (fst (run sv is)))) \<and>
             (\<exists>u. map_get ?userId (users (registries sv2)) = Some u \<and>
                  username u = name \<and> socketId u = sid2 \<and> online u)"
      by (simp only: split_beta)
  qed
  have ex: "(find_user name (users reg) = None) = (\<forall>(k, u) \<in> set (users reg). username u \<noteq> name)"
    by (rule find_user_None)
  have old: "?userId = uid \<and> map fst (users ?reg') = map fst (users reg) \<and>
          (\<exists>u. map_get uid (users reg) = Some u \<and> username u = name \<and>
               map_get uid (users ?reg') = Some (u\<lparr>socketId := sid, online := True\<rparr>)) \<and>
          (\<forall>k. k \<noteq> uid \<longrightarrow> map_get k (users ?reg') = map_get k (users reg))"
    if "find_user name (users reg) = Some uid" for uid
    using login_existing [OF assms(1) that] by simp
  have new: "?userId = gid \<and>
          users ?reg' = users reg @
            [(gid, \<lparr>username = name, socketId = sid, online = True, createdAt = t\<rparr>)]"
    if "find_user name (users reg) = None"
    using login_new [OF assms(1,3) that] by simp
  have nm: "names_ok (users reg) \<longrightarrow> names_ok (users ?reg')"
    using login_names_ok [OF assms(1,3)] by simp
  have all_old: "\<forall>uid. find_user name (users reg) = Some uid \<longrightarrow>
          ?userId = uid \<and> map fst (users ?reg') = map fst (users reg) \<and>
          (\<exists>u. map_get uid (users reg) = Some u \<and> username u = name \<and>
               map_get uid (users ?reg') = Some (u\<lparr>socketId := sid, online := True\<rparr>)) \<and>
          (\<forall>k. k \<noteq> uid \<longrightarrow> map_get k (users ?reg') = map_get k (users reg))"
    using old by blast
  have all_new: "find_user name (users reg) = None \<longrightarrow>
          ?userId = gid \<and>
          users ?reg' = users reg @
            [(gid, \<lparr>username = name, socketId = sid, online = True, createdAt = t\<rparr>)]"
    using new by blast
  obtain reg' userId out where l: "login reg sid name gid t = (reg', userId, out)"
    by (cases "login reg sid name gid t") auto
  then have eqs: "?reg' = reg'" "?userId = userId" by simp_all
  show ?thesis
    unfolding l prod.case
    using ex all_old all_new nm k' later unfolding eqs
    by (intro conjI)
qed

theorem login_resolves_stable_id_witness:
  "keys_ok (users (registries (fst (run initial_server three_users)))) \<and>
   \<not> map_has ''u9'' (users (registries (fst (run initial_server three_users)))) \<and>
   login (registries (fst (run initial_server three_users))) ''s9'' (Some ''bob'') ''u9'' 8 =
     (\<lparr>users =
         [(''u1'', \<lparr>username = Some ''alice'', socketId = ''s1'', online = True, createdAt = 1\<rparr>),
          (''u2'', \<lparr>username = Some ''bob'', socketId = ''s9'', online = True, createdAt = 2\<rparr>),
          (''u3'', \<lparr>username = Some ''carol'', socketId = ''s3'', online = True, createdAt = 3\<rparr>)],
       messages = [(''u1-u2'', [])],
       chats = [(''u1-u2'', \<lparr>participants = [''u1'', ''u2''], ctype = Private, cname = None,
                               chat_createdAt = 4, createdBy = None\<rparr>)]\<rparr>,
      ''u2'',
      [(ToSocket ''s9'', LoginSuccess ''u2'' (Some ''bob'')
          [\<lparr>s_chatId = ''u1-u2'', s_name = ''alice'', s_type = Private,
            s_participants = [''u1'', ''u2''], s_lastMessage = None, s_online = True,
            s_unread = 0\<rparr>]),
       (BroadcastExcept ''s9'', UserOnline ''u2'' (Some ''bob''))]) \<and>
   fst (snd (login (registries (fst (run initial_server three_users))) ''s9'' (Some ''erin'')
      ''u9'' 8)) = ''u9'' \<and>
   currentUserId (fst (run initial_server
      (three_users @ [(''s2'', Disconnect, at_time ''x'' 5),
                      (''s9'', Login (Some ''bob''), at_time ''u9'' 6)]))) ''s9'' = Some ''u2''"
proof -
  let ?reg = "registries (fst (run initial_server three_users))"
  have k: "keys_ok (users ?reg)" by code_simp
  have g: "''u9'' \<noteq> []" by simp
  have f: "\<not> map_has ''u9'' (users ?reg)" by code_simp
  have a: "login ?reg ''s9'' (Some ''bob'') ''u9'' 8 =
     (\<lparr>users =
         [(''u1'', \<lparr>username = Some ''alice'', socketId = ''s1'', online = True, createdAt = 1\<rparr>),
          (''u2'', \<lparr>username = Some ''bob'', socketId = ''s9'', online = True, createdAt = 2\<rparr>),
          (''u3'', \<lparr>username = Some ''carol'', socketId = ''s3'', online = True, createdAt = 3\<rparr>)],
       messages = [(''u1-u2'', [])],
       chats = [(''u1-u2'', \<lparr>participants = [''u1'', ''u2''], ctype = Private, cname = None,
                               chat_createdAt = 4, createdBy = None\<rparr>)]\<rparr>,
      ''u2'',
      [(ToSocket ''s9'', LoginSuccess ''u2'' (Some ''bob'')
          [\<lparr>s_chatId = ''u1-u2'', s_name = ''alice'', s_type = Private,
            s_participants = [''u1'', ''u2''], s_lastMessage = None, s_online = True,
            s_unread = 0\<rparr>]),
       (BroadcastExcept ''s9'', UserOnline ''u2'' (Some ''bob''))])"
    by code_simp
  have b: "fst (snd (login ?reg ''s9'' (Some ''erin'') ''u9'' 8)) = ''u9''" by code_simp
  have c: "currentUserId (fst (run initial_server
      (three_users @ [(''s2'', Disconnect, at_time ''x'' 5),
                      (''s9'', Login (Some ''bob''), at_time ''u9'' 6)]))) ''s9'' = Some ''u2''"
    by code_simp
  note login_resolves_stable_id [OF k g f, where sid = "''s9''" and name = "Some ''bob''"
      and t = 8]
  with k f a b c show ?thesis by simp
qed

subsection \<open>Reachable states\<close>

text \<open>
  The conditions on the registries that the statements above assume hold at the start and
  after every run in which the connection ids are non-empty and the generated ids new.
\<close>

lemma initial_invariants:
  "handles_ok (users (registries initial_server))"
  "keys_ok (users (registries initial_server))"
  "names_ok (users (registries initial_server))"
  "log_inv (registries initial_server)"
  by (simp_all add: initial_server_def empty_registry_def handles_ok_def keys_ok_def
      names_ok_def log_inv_def)

lemma handle_names_ok:
  assumes "keys_ok (users reg)" and "names_ok (users reg)" and "fresh_input reg (sid, ev, e)"
  shows "names_ok (users (fst (handle reg sid cur ev e)))"
proof (cases ev)
  case (Login n)
  from assms(3) Login have "\<not> map_has (gen_id e) (users reg)"
    by (simp add: fresh_input_def)
  from login_names_ok [OF assms(1) this assms(2)] show ?thesis
    by (simp add: Login split_beta)
next
  case Disconnect
  have "names_ok (users (fst (disconnect reg sid cur)))"
    using users_disconnect [of reg sid cur] assms(2)
    by (auto simp: names_ok_def names_map_modify)
  then show ?thesis by (simp add: Disconnect split_beta)
qed (use assms(2) in \<open>simp_all add: users_unchanged split_beta\<close>)

lemma run_names_ok:
  "keys_ok (users (registries sv)) \<Longrightarrow> names_ok (users (registries sv)) \<Longrightarrow> fresh_run sv is \<Longrightarrow>
   keys_ok (users (registries (fst (run sv is)))) \<and>
   names_ok (users (registries (fst (run sv is))))"
proof (induction "is" arbitrary: sv)
  case Nil
  then show ?case by simp
next
  case (Cons i "is")
  obtain sid ev e where i: "i = (sid, ev, e)" by (cases i) auto
  let ?sv = "fst (step sv i)"
  from Cons.prems have fr: "fresh_input (registries sv) (sid, ev, e)" and rest: "fresh_run ?sv is"
    by (simp_all add: i)
  from handle_identity [OF Cons.prems(1) fr, of "currentUserId sv sid"]
  have k: "keys_ok (users (registries ?sv))"
    by (simp add: i step_registries)
  from handle_names_ok [OF Cons.prems(1,2) fr, of "currentUserId sv sid"]
  have n: "names_ok (users (registries ?sv))"
    by (simp add: i step_registries)
  from Cons.IH [OF k n rest] show ?case by (simp only: run_Cons_fst)
qed

lemma reachable_invariants:
  assumes "fresh_run initial_server is" and "list_all (\<lambda>(sid, ev, e). sid \<noteq> []) is"
  shows "handles_ok (users (registries (fst (run initial_server is))))"
    and "keys_ok (users (registries (fst (run initial_server is))))"
    and "names_ok (users (registries (fst (run initial_server is))))"
    and "log_inv (registries (fst (run initial_server is)))"
  using run_handles_ok [OF initial_invariants(1) assms(2)]
    run_names_ok [OF initial_invariants(2,3) assms(1)]
    run_log [OF initial_invariants(4) assms(1)]
  by simp_all

end
